theory Spec2Isabelle
  imports Main "HOL-Library.Word"
begin

section \<open>The typed mesh of tangram-es: data model\<close>

text \<open>
  This theory embeds \<^verbatim>\<open>core/src/gl/typedMesh.h\<close>: the two \<^verbatim>\<open>compile\<close> overloads of
  \<^verbatim>\<open>TypedMesh<T>\<close> with \<^verbatim>\<open>compileIndices\<close>, and the mutators \<^verbatim>\<open>updateVertices\<close>,
  \<^verbatim>\<open>updateAttribute\<close> and \<^verbatim>\<open>setDirty\<close>.

  Conventions of the embedding.
  \<^item> A value of the vertex type \<^verbatim>\<open>T\<close> (or of an attribute type \<^verbatim>\<open>A\<close>) is its object
    representation, a list of bytes; \<^verbatim>\<open>sizeof(T)\<close> is the parameter \<open>tSize\<close> of the
    mutators, and \<^verbatim>\<open>m_vertexLayout->getStride()\<close> the parameter \<open>stride\<close> of the compile
    functions.
  \<^item> \<^verbatim>\<open>GLushort\<close> and \<^verbatim>\<open>uint16_t\<close> are 16-bit words; storing a wider sum into a
    \<^verbatim>\<open>GLushort\<close> truncates it (\<open>of_nat\<close>).
  \<^item> Counts (\<^verbatim>\<open>size_t\<close>, \<^verbatim>\<open>uint32_t\<close>, the \<^verbatim>\<open>int\<close> counters of \<^verbatim>\<open>compile\<close>) are natural
    numbers: they only grow by the sizes of containers held in memory.
  \<^item> In the mutators the conversion of a (possibly negative) \<^verbatim>\<open>int\<close> to \<^verbatim>\<open>size_t\<close> and
    the \<^verbatim>\<open>size_t\<close> arithmetic wrap modulo \<open>2 ^ 64\<close>, and the conversions to
    \<^verbatim>\<open>GLintptr\<close> (64 bits, signed) and \<^verbatim>\<open>GLsizei\<close> (32 bits, signed) are written out.
  \<^item> The fields of a \<^verbatim>\<open>Range\<close> are \<^verbatim>\<open>int\<close>s of 32 bits. The sum of two \<^verbatim>\<open>int\<close>s is taken in
    32 bits: a signed overflow is undefined in C++, and the model takes what the usual
    builds compute, the sum wrapped to 32 bits in two's complement (\<open>int32\<close>). The cast
    \<^verbatim>\<open>int(m_nVertices)\<close> keeps the low 32 bits of the count in the same way.
  \<^item> A read or write outside a container or a buffer is undefined in C++; here it is
    the error \<open>OutOfBounds\<close>. A failed \<^verbatim>\<open>assert\<close> is \<open>AssertionFailed\<close>, a failed
    \<^verbatim>\<open>static_assert\<close> (the instantiation does not compile) is \<open>StaticAssertFailed\<close>.
  \<^item> A buffer obtained from \<^verbatim>\<open>new[]\<close> has its allocated size from the start, with
    indeterminate contents (\<open>indeterminate\<close>), and is filled front to back. While it is
    being filled the model carries the part written so far, so \<open>length\<close> of that list
    is the write position (\<^verbatim>\<open>dst\<close>, \<^verbatim>\<open>vPos\<close>, \<^verbatim>\<open>iPos\<close>); the buffer stored in the mesh is
    that part followed by the cells of the allocation that were never written.
  \<^item> \<^verbatim>\<open>vboMesh.h\<close> is not among the sources: the members of \<^verbatim>\<open>VboMesh\<close> that
    \<^verbatim>\<open>typedMesh.h\<close> reads and writes are the fields of the record \<open>VboMesh\<close>, the
    struct \<^verbatim>\<open>Range\<close> is the record \<open>Range\<close>, and the macro \<^verbatim>\<open>MAX_INDEX_VALUE\<close> is the
    parameter \<open>M\<close> of the compile functions.
\<close>

type_synonym GLbyte = "8 word"
type_synonym GLushort = "16 word"
type_synonym vertex = "GLbyte list"

datatype error = OutOfBounds | AssertionFailed | StaticAssertFailed

record MeshData =
  offsets :: "(nat \<times> nat) list"
  vertices :: "vertex list"
  indices :: "GLushort list"

record Range =
  start :: int
  length_r :: int

record VboMesh =
  m_nVertices :: nat
  m_nIndices :: nat
  m_glVertexData :: "GLbyte list option"
  m_glIndexData :: "GLushort list option"
  m_vertexOffsets :: "(nat \<times> nat) list"
  m_isCompiled :: bool
  m_dirty :: bool
  m_dirtyOffset :: int
  m_dirtySize :: int

text \<open>
  Modelled from the spec: the constructor of \<^verbatim>\<open>VboMesh\<close> is not among the sources; the
  spec (section 3) says that a mesh is created empty and uncompiled, with no dirty range.
\<close>

definition new_mesh :: VboMesh where
  "new_mesh = \<lparr> m_nVertices = 0, m_nIndices = 0, m_glVertexData = None,
      m_glIndexData = None, m_vertexOffsets = [], m_isCompiled = False,
      m_dirty = False, m_dirtyOffset = 0, m_dirtySize = 0 \<rparr>"

section \<open>Compilation\<close>

subsection \<open>compileIndices\<close>

text \<open>
  \<^verbatim>\<open>auto& offset = m_vertexOffsets.back(); offset.first += ...; offset.second += ...\<close>:
  the last group is updated in place. \<^verbatim>\<open>compileIndices\<close> calls it on a vector it has just
  appended to, so the case of the empty list is never reached.
\<close>

fun update_back :: "('a \<Rightarrow> 'a) \<Rightarrow> 'a list \<Rightarrow> 'a list" where
  "update_back f [] = []"
| "update_back f [x] = [f x]"
| "update_back f (x # y # ys) = x # update_back f (y # ys)"

text \<open>\<^verbatim>\<open>*_dst = index + curVertices\<close>: the sum is truncated to 16 bits by the store.\<close>

definition rebase :: "nat \<Rightarrow> GLushort \<Rightarrow> GLushort" where
  "rebase curVertices idx = of_nat (unat idx + curVertices)"

text \<open>
  The loop of \<^verbatim>\<open>compileIndices\<close> over \<^verbatim>\<open>_data.offsets\<close>. \<open>src\<close> is what is left of
  \<^verbatim>\<open>_data.indices\<close> from position \<^verbatim>\<open>src\<close> on, \<open>dst\<close> the index buffer written so far,
  \<open>vo\<close> is \<^verbatim>\<open>m_vertexOffsets\<close>. Reading more indices than the container holds is
  \<open>OutOfBounds\<close>. The inner loop copies the next \<open>nIndices\<close> indices, each rebased by
  the running vertex count. The function does not know the size of the destination:
  \<^verbatim>\<open>compile\<close> allocates one slot per index of the input, so as long as no read leaves its
  container no write leaves the buffer, and \<^verbatim>\<open>compile\<close> compares the final position with
  the end of the buffer.
\<close>

fun compileIndices_loop ::
  "nat \<Rightarrow> (nat \<times> nat) list \<Rightarrow> GLushort list \<Rightarrow> nat \<Rightarrow> GLushort list \<Rightarrow> (nat \<times> nat) list
    \<Rightarrow> error + (GLushort list \<times> (nat \<times> nat) list)" where
  "compileIndices_loop M [] src curVertices dst vo = Inr (dst, vo)"
| "compileIndices_loop M ((nIndices, nVertices) # ps) src curVertices dst vo =
     (let vo1 = (if curVertices + nVertices > M then vo @ [(0, 0)] else vo);
          cur1 = (if curVertices + nVertices > M then 0 else curVertices)
      in if nIndices > length src then Inl OutOfBounds
         else compileIndices_loop M ps (drop nIndices src) (cur1 + nVertices)
                (dst @ map (rebase cur1) (take nIndices src))
                (update_back (\<lambda>(a, b). (a + nIndices, b + nVertices)) vo1))"

definition compileIndices ::
  "nat \<Rightarrow> MeshData \<Rightarrow> GLushort list \<times> (nat \<times> nat) list
    \<Rightarrow> error + (GLushort list \<times> (nat \<times> nat) list)" where
  "compileIndices M data st =
     (case st of (dst, vo) \<Rightarrow>
        compileIndices_loop M (offsets data) (indices data) 0 dst (vo @ [(0, 0)]))"

subsection \<open>compile from a sequence of MeshData\<close>

text \<open>
  \<^verbatim>\<open>memcpy(dst, vs.data(), n)\<close> from an array of vertices: the first \<open>n\<close> bytes of the
  array; asking for more than it holds reads past it.
\<close>

definition read_bytes :: "vertex list \<Rightarrow> nat \<Rightarrow> error + GLbyte list" where
  "read_bytes vs n =
     (if n \<le> length (concat vs) then Inr (take n (concat vs)) else Inl OutOfBounds)"

fun copy_vertices :: "nat \<Rightarrow> MeshData list \<Rightarrow> GLbyte list \<Rightarrow> error + GLbyte list" where
  "copy_vertices stride [] buf = Inr buf"
| "copy_vertices stride (m # ms) buf =
     (case read_bytes (vertices m) (length (vertices m) * stride) of
        Inl e \<Rightarrow> Inl e
      | Inr bytes \<Rightarrow> copy_vertices stride ms (buf @ bytes))"

fun compile_indices_all ::
  "nat \<Rightarrow> MeshData list \<Rightarrow> GLushort list \<times> (nat \<times> nat) list
    \<Rightarrow> error + (GLushort list \<times> (nat \<times> nat) list)" where
  "compile_indices_all M [] st = Inr st"
| "compile_indices_all M (m # ms) st =
     (case compileIndices M m st of
        Inl e \<Rightarrow> Inl e
      | Inr st' \<Rightarrow> compile_indices_all M ms st')"

definition compile_meshes :: "nat \<Rightarrow> nat \<Rightarrow> MeshData list \<Rightarrow> VboMesh \<Rightarrow> error + VboMesh" where
  "compile_meshes M stride meshes mesh =
     (let nVertices = sum_list (map (\<lambda>m. length (vertices m)) meshes);
          nIndices = sum_list (map (\<lambda>m. length (indices m)) meshes)
      in case copy_vertices stride meshes [] of
           Inl e \<Rightarrow> Inl e
         | Inr vdata \<Rightarrow>
            (case compile_indices_all M meshes ([], m_vertexOffsets mesh) of
               Inl e \<Rightarrow> Inl e
             | Inr (dst, vo) \<Rightarrow>
                 if length dst = nIndices
                 then Inr (mesh\<lparr> m_isCompiled := True, m_nVertices := nVertices,
                        m_nIndices := nIndices, m_glVertexData := Some vdata,
                        m_glIndexData := Some dst, m_vertexOffsets := vo \<rparr>)
                 else Inl AssertionFailed))"

subsection \<open>compile from parallel arrays\<close>

text \<open>
  \<open>indeterminate n\<close> is the contents of \<open>n\<close> cells fresh from \<^verbatim>\<open>new[]\<close>: nothing is known
  of a cell but that it holds some value.
\<close>

definition indeterminate :: "nat \<Rightarrow> 'a list" where
  "indeterminate n = map undefined [0..<n]"

text \<open>
  The loop of the second overload (the overload first takes over the contents of its two
  arguments, which does not change them). The local variables are the tuple
  \<open>(vertexOffset, indexOffset, vdata, idata, vo)\<close>: \<open>vdata\<close> and \<open>idata\<close> are the vertex
  and index buffers written so far (\<^verbatim>\<open>vPos\<close> and \<^verbatim>\<open>iPos\<close> are their lengths), \<open>vcap\<close>
  and \<open>icap\<close> the sizes the buffers were allocated with. \<open>is\<close> is what is left of
  \<^verbatim>\<open>indices\<close> from position \<^verbatim>\<open>i\<close> on.
\<close>

fun compile_loop ::
  "nat \<Rightarrow> nat \<Rightarrow> nat \<Rightarrow> nat \<Rightarrow> bool \<Rightarrow> vertex list list \<Rightarrow> GLushort list list
    \<Rightarrow> nat \<times> nat \<times> GLbyte list \<times> GLushort list \<times> (nat \<times> nat) list
    \<Rightarrow> error + (nat \<times> nat \<times> GLbyte list \<times> GLushort list \<times> (nat \<times> nat) list)" where
  "compile_loop M stride vcap icap useIndices [] is st = Inr st"
| "compile_loop M stride vcap icap useIndices (curVertices # vs) is
      (vertexOffset, indexOffset, vdata, idata, vo) =
     (let nVertices = length curVertices;
          nBytes = nVertices * stride
      in case read_bytes curVertices nBytes of
           Inl e \<Rightarrow> Inl e
         | Inr bytes \<Rightarrow>
             if length vdata + nBytes > vcap then Inl OutOfBounds
             else if useIndices then
               (case is of
                  [] \<Rightarrow> Inl OutOfBounds
                | ixs # is' \<Rightarrow>
                    let split = (vertexOffset + nVertices > M);
                        vo1 = (if split then vo @ [(indexOffset, vertexOffset)] else vo);
                        vertexOffset1 = (if split then 0 else vertexOffset);
                        indexOffset1 = (if split then 0 else indexOffset)
                    in if length idata + length ixs > icap then Inl OutOfBounds
                       else compile_loop M stride vcap icap useIndices vs is'
                              (vertexOffset1 + nVertices, indexOffset1 + length ixs,
                               vdata @ bytes, idata @ map (rebase vertexOffset1) ixs, vo1))
             else compile_loop M stride vcap icap useIndices vs (tl is)
                    (vertexOffset + nVertices, indexOffset, vdata @ bytes, idata, vo))"

definition compile_arrays ::
  "nat \<Rightarrow> nat \<Rightarrow> vertex list list \<Rightarrow> GLushort list list \<Rightarrow> VboMesh \<Rightarrow> error + VboMesh" where
  "compile_arrays M stride vs is mesh =
     (let useIndices = (m_nIndices mesh > 0)
      in case compile_loop M stride (stride * m_nVertices mesh) (m_nIndices mesh) useIndices
                vs is (0, 0, [], [], m_vertexOffsets mesh) of
           Inl e \<Rightarrow> Inl e
         | Inr (vertexOffset, indexOffset, vdata, idata, vo) \<Rightarrow>
             Inr (mesh\<lparr> m_glVertexData :=
                      Some (vdata @ drop (length vdata)
                                      (indeterminate (stride * m_nVertices mesh))),
                    m_glIndexData :=
                      (if useIndices
                       then Some (idata @ drop (length idata) (indeterminate (m_nIndices mesh)))
                       else m_glIndexData mesh),
                    m_vertexOffsets := vo @ [(indexOffset, vertexOffset)],
                    m_isCompiled := True \<rparr>))"

section \<open>Mutation after compilation\<close>

subsection \<open>Machine integers of the mutators\<close>

text \<open>
  \<open>size_t x\<close> is the value of the integer \<open>x\<close> converted to \<^verbatim>\<open>size_t\<close> (64 bits, unsigned);
  \<^verbatim>\<open>size_t\<close> sums, differences and products are \<open>size_t\<close> of the exact result.
  \<open>GLintptr x\<close> and \<open>GLsizei x\<close> are the values of \<open>x\<close> converted to the signed types
  of 64 and 32 bits that \<^verbatim>\<open>setDirty\<close> takes, and \<open>int32 x\<close> the value of \<open>x\<close> in an
  \<^verbatim>\<open>int\<close>: the result of a sum of two \<^verbatim>\<open>int\<close>s, or of the cast \<^verbatim>\<open>int(m_nVertices)\<close>.
\<close>

definition size_t :: "int \<Rightarrow> int" where
  "size_t x = x mod 2 ^ 64"

definition GLintptr :: "int \<Rightarrow> int" where
  "GLintptr x = (x + 2 ^ 63) mod 2 ^ 64 - 2 ^ 63"

definition GLsizei :: "int \<Rightarrow> int" where
  "GLsizei x = (x + 2 ^ 31) mod 2 ^ 32 - 2 ^ 31"

definition int32 :: "int \<Rightarrow> int" where
  "int32 x = (x + 2 ^ 31) mod 2 ^ 32 - 2 ^ 31"

subsection \<open>setDirty\<close>

text \<open>
  \<^verbatim>\<open>m_dirtyOffset\<close> and \<^verbatim>\<open>m_dirtySize\<close> have the types of the parameters stored in them
  (\<^verbatim>\<open>GLintptr\<close>, \<^verbatim>\<open>GLsizei\<close>); \<^verbatim>\<open>end\<close> is a \<^verbatim>\<open>size_t\<close>.
\<close>

definition setDirty :: "int \<Rightarrow> int \<Rightarrow> VboMesh \<Rightarrow> VboMesh" where
  "setDirty byteOffset byteSize m =
     (if \<not> m_dirty m
      then m\<lparr> m_dirty := True, m_dirtySize := byteSize, m_dirtyOffset := byteOffset \<rparr>
      else let end_sz = size_t (max (m_dirtyOffset m + m_dirtySize m) (byteOffset + byteSize));
               newOffset = min (m_dirtyOffset m) byteOffset
           in m\<lparr> m_dirtyOffset := newOffset,
                 m_dirtySize := GLsizei (size_t (end_sz - size_t newOffset)) \<rparr>)"

subsection \<open>The write loop of updateVertices and updateAttribute\<close>

text \<open>
  \<^verbatim>\<open>memcpy(m_glVertexData + offset, &value, n)\<close>: \<open>n\<close> bytes of the value's representation
  replace the bytes of the buffer from \<open>offset\<close> on. A destination that is not inside
  the buffer is \<open>OutOfBounds\<close>.
\<close>

definition memcpy :: "GLbyte list \<Rightarrow> nat \<Rightarrow> GLbyte list \<Rightarrow> nat \<Rightarrow> error + GLbyte list" where
  "memcpy buf offset src n =
     (if offset + n \<le> length buf \<and> n \<le> length src
      then Inr (take offset buf @ take n src @ drop (offset + n) buf)
      else Inl OutOfBounds)"

text \<open>
  \<^verbatim>\<open>for (size_t offset = start; offset < end; offset += tSize) memcpy(...)\<close>.
  \<^verbatim>\<open>sizeof(T)\<close> is positive for every C++ type; the conjunct \<open>0 < tSize\<close> of the loop
  condition only makes the HOL function total. \<open>offset + tSize\<close> is not reduced modulo
  \<open>2 ^ 64\<close>: after a \<^verbatim>\<open>memcpy\<close> that stayed inside the buffer, \<open>offset\<close> is below the size
  of an object in memory.
\<close>

function write_loop ::
  "nat \<Rightarrow> GLbyte list \<Rightarrow> nat \<Rightarrow> nat \<Rightarrow> nat \<Rightarrow> GLbyte list \<Rightarrow> error + GLbyte list" where
  "write_loop tSize src n offset end_sz buf =
     (if offset < end_sz \<and> 0 < tSize
      then (case memcpy buf offset src n of
              Inl e \<Rightarrow> Inl e
            | Inr buf' \<Rightarrow> write_loop tSize src n (offset + tSize) end_sz buf')
      else Inr buf)"
  by pat_completeness auto
termination
  by (relation "measure (\<lambda>(tSize, src, n, offset, end_sz, buf). end_sz - offset)") auto

declare write_loop.simps [simp del]

subsection \<open>updateVertices\<close>

text \<open>
  A null \<^verbatim>\<open>m_glVertexData\<close> runs into \<^verbatim>\<open>assert(false)\<close>. The only check of the range is
  \<^verbatim>\<open>start + length > int(m_nVertices)\<close>, a comparison of two \<^verbatim>\<open>int\<close>s.
\<close>

definition updateVertices :: "nat \<Rightarrow> Range \<Rightarrow> GLbyte list \<Rightarrow> VboMesh \<Rightarrow> error + VboMesh" where
  "updateVertices tSize vertexRange newVertexValue m =
     (case m_glVertexData m of
        None \<Rightarrow> Inl AssertionFailed
      | Some buf \<Rightarrow>
          if int32 (start vertexRange + length_r vertexRange) > int32 (int (m_nVertices m))
          then Inr m
          else
           (let start_sz = size_t (size_t (start vertexRange) * int tSize);
                end_sz = size_t (start_sz + size_t (size_t (length_r vertexRange) * int tSize))
            in (case write_loop tSize newVertexValue tSize (nat start_sz) (nat end_sz) buf of
                  Inl e \<Rightarrow> Inl e
                | Inr buf' \<Rightarrow>
                    Inr (setDirty (GLintptr start_sz) (GLsizei (size_t (end_sz - start_sz)))
                           (m\<lparr> m_glVertexData := Some buf' \<rparr>)))))"

subsection \<open>updateAttribute\<close>

text \<open>
  \<open>aSize\<close> is \<^verbatim>\<open>sizeof(A)\<close>, the length of the attribute's representation. The
  \<^verbatim>\<open>static_assert\<close> is decided when the template is instantiated, before anything runs.
\<close>

definition updateAttribute ::
  "nat \<Rightarrow> Range \<Rightarrow> GLbyte list \<Rightarrow> nat \<Rightarrow> VboMesh \<Rightarrow> error + VboMesh" where
  "updateAttribute tSize vertexRange newAttributeValue attribOffset m =
     (let aSize = length newAttributeValue
      in if \<not> aSize \<le> tSize then Inl StaticAssertFailed
         else
          (case m_glVertexData m of
             None \<Rightarrow> Inl AssertionFailed
           | Some buf \<Rightarrow>
               if start vertexRange < 0 \<or> length_r vertexRange < 1 then Inr m
               else if size_t (int32 (start vertexRange + length_r vertexRange)) > int (m_nVertices m)
               then Inr m
               else if attribOffset \<ge> tSize then Inr m
               else
                (let start_sz = size_t (size_t (size_t (start vertexRange) * int tSize)
                                  + int attribOffset);
                     end_sz = size_t (start_sz + size_t (size_t (length_r vertexRange) * int tSize))
                 in (case write_loop tSize newAttributeValue aSize (nat start_sz) (nat end_sz) buf of
                       Inl e \<Rightarrow> Inl e
                     | Inr buf' \<Rightarrow>
                         Inr (setDirty (GLintptr start_sz)
                                (GLsizei (size_t (size_t (size_t (length_r vertexRange - 1) * int tSize)
                                   + int aSize)))
                                (m\<lparr> m_glVertexData := Some buf' \<rparr>))))))"

section \<open>Notions used by the properties\<close>

abbreviation sum_fst :: "(nat \<times> nat) list \<Rightarrow> nat" where
  "sum_fst gs \<equiv> sum_list (map fst gs)"

abbreviation sum_snd :: "(nat \<times> nat) list \<Rightarrow> nat" where
  "sum_snd gs \<equiv> sum_list (map snd gs)"


text \<open>
  Well-formed input of \<^verbatim>\<open>compileIndices\<close>: no batch \<open>(nI, nV)\<close> of \<^verbatim>\<open>offsets\<close> has more
  than \<open>M\<close> vertices, and each of its \<open>nI\<close> indices is local to the batch, below \<open>nV\<close>.
\<close>

fun batches_ok :: "nat \<Rightarrow> (nat \<times> nat) list \<Rightarrow> GLushort list \<Rightarrow> bool" where
  "batches_ok M [] src = True"
| "batches_ok M ((nI, nV) # ps) src =
     (nV \<le> M \<and> list_all (\<lambda>i. unat i < nV) (take nI src) \<and> batches_ok M ps (drop nI src))"

text \<open>The same for parallel arrays: array by array.\<close>

fun arrays_ok :: "nat \<Rightarrow> vertex list list \<Rightarrow> GLushort list list \<Rightarrow> bool" where
  "arrays_ok M (v # vs) (ixs # is) =
     (length v \<le> M \<and> list_all (\<lambda>i. unat i < length v) ixs \<and> arrays_ok M vs is)"
| "arrays_ok M vs is = True"

text \<open>
  The same geometry in the two input forms: parallel arrays \<open>vs\<close>, \<open>is\<close> seen as one
  \<^verbatim>\<open>MeshData\<close> whose \<^verbatim>\<open>offsets\<close> are the sizes of the arrays.
\<close>

fun batch_sizes :: "vertex list list \<Rightarrow> GLushort list list \<Rightarrow> (nat \<times> nat) list" where
  "batch_sizes (v # vs) (ixs # is) = (length ixs, length v) # batch_sizes vs is"
| "batch_sizes vs is = []"

definition to_MeshData :: "vertex list list \<Rightarrow> GLushort list list \<Rightarrow> MeshData" where
  "to_MeshData vs is =
     \<lparr> offsets = batch_sizes vs is, vertices = concat vs, indices = concat is \<rparr>"

definition conserved :: "VboMesh \<Rightarrow> bool" where
  "conserved m =
     (sum_fst (m_vertexOffsets m) = m_nIndices m \<and> sum_snd (m_vertexOffsets m) = m_nVertices m)"

text \<open>The index list \<open>0, 1, ..., n - 1\<close>, each value stored in 16 bits.\<close>

definition increasing_indices :: "nat \<Rightarrow> GLushort list" where
  "increasing_indices n = map of_nat [0..<n]"



subsection \<open>Example inputs\<close>

text \<open>
  A triangle of three one-byte vertices, as a \<^verbatim>\<open>MeshData\<close> and as a pair of arrays; a
  mesh whose counts were set for two triangles, as \<^verbatim>\<open>compile\<close> from parallel arrays
  expects them; and a compiled mesh of two vertices of four zero bytes each.
\<close>

definition triangle :: MeshData where
  "triangle = \<lparr> offsets = [(3, 3)], vertices = [[0], [0], [0]], indices = [0, 1, 2] \<rparr>"

definition triangle_vertices :: "vertex list" where
  "triangle_vertices = [[0], [0], [0]]"

definition triangle_indices :: "GLushort list" where
  "triangle_indices = [0, 1, 2]"

definition counted_mesh :: VboMesh where
  "counted_mesh = new_mesh\<lparr> m_nVertices := 6, m_nIndices := 6 \<rparr>"

definition quad_mesh :: VboMesh where
  "quad_mesh = new_mesh\<lparr> m_nVertices := 2, m_glVertexData := Some [0, 0, 0, 0, 0, 0, 0, 0],
     m_isCompiled := True \<rparr>"

text \<open>A compiled mesh of \<open>2 ^ 31\<close> vertices of one byte.\<close>

definition huge_mesh :: VboMesh where
  "huge_mesh = new_mesh\<lparr> m_nVertices := 2147483648,
                 m_glVertexData := Some (replicate 2147483648 0), m_isCompiled := True \<rparr>"

text \<open>
  A triangle whose batch descriptor declares five vertices, and the mesh it compiles to.
\<close>

definition miscounted_triangle :: MeshData where
  "miscounted_triangle =
     \<lparr> offsets = [(3, 5)], vertices = [[0], [0], [0]], indices = [0, 1, 2] \<rparr>"

definition miscounted_mesh :: VboMesh where
  "miscounted_mesh =
     new_mesh\<lparr> m_isCompiled := True, m_nVertices := 3, m_nIndices := 3,
       m_glVertexData := Some [0, 0, 0], m_glIndexData := Some [0, 1, 2],
       m_vertexOffsets := [(3, 5)] \<rparr>"

definition grouped_triangles :: VboMesh where
  "grouped_triangles =
     new_mesh\<lparr> m_isCompiled := True, m_nVertices := 6, m_nIndices := 6,
       m_glVertexData := Some [0, 0, 0, 0, 0, 0], m_glIndexData := Some [0, 1, 2, 0, 1, 2],
       m_vertexOffsets := [(3, 3), (3, 3)] \<rparr>"

definition arrays_triangles :: VboMesh where
  "arrays_triangles =
     counted_mesh\<lparr> m_glVertexData := Some [0, 0, 0, 0, 0, 0],
       m_glIndexData := Some [0, 1, 2, 3, 4, 5], m_vertexOffsets := [(6, 6)],
       m_isCompiled := True \<rparr>"

section \<open>Lemmas about compileIndices\<close>

lemma update_back_snoc [simp]: "update_back f (xs @ [x]) = xs @ [f x]"
  by (induction f xs rule: update_back.induct) auto

lemma update_back_snoc2 [simp]: "update_back f (xs @ [y, x]) = xs @ [y, f x]"
  using update_back_snoc [of f "xs @ [y]" x] by simp

lemma update_back_append [simp]:
  "ys \<noteq> [] \<Longrightarrow> update_back f (xs @ ys) = xs @ update_back f ys"
  by (induction f xs rule: update_back.induct) (auto simp: neq_Nil_conv)




lemma loop_sums:
  "compileIndices_loop M ps src cur dst (gs @ [g]) = Inr (dst', vo') \<Longrightarrow>
     sum_fst vo' = sum_fst (gs @ [g]) + sum_fst ps \<and>
     sum_snd vo' = sum_snd (gs @ [g]) + sum_snd ps \<and>
     length dst' = length dst + sum_fst ps \<and> sum_fst ps \<le> length src"
proof (induction ps arbitrary: src cur dst gs g dst' vo')
  case Nil
  then show ?case by simp
next
  case (Cons p ps)
  obtain nI nV where p: "p = (nI, nV)" by (cases p)
  obtain a b where g: "g = (a, b)" by (cases g)
  show ?case
  proof (cases "cur + nV > M")
    case True
    with Cons.prems p g have ok: "nI \<le> length src" and
      rec: "compileIndices_loop M ps (drop nI src) (0 + nV) (dst @ map (rebase 0) (take nI src))
             ((gs @ [g]) @ [(nI, nV)]) = Inr (dst', vo')"
      by (auto split: if_splits)
    from Cons.IH [OF rec] ok show ?thesis by (auto simp: p)
  next
    case False
    with Cons.prems p g have ok: "nI \<le> length src" and
      rec: "compileIndices_loop M ps (drop nI src) (cur + nV) (dst @ map (rebase cur) (take nI src))
             (gs @ [(a + nI, b + nV)]) = Inr (dst', vo')"
      by (auto split: if_splits)
    from Cons.IH [OF rec] ok show ?thesis by (auto simp: p g)
  qed
qed


lemma rebase_0 [simp]: "rebase 0 i = i"
  by (simp add: rebase_def)

lemma map_rebase_0 [simp]: "map (rebase 0) xs = xs"
  by (induction xs) auto





lemma compileIndices_sums:
  "compileIndices M d (dst, vo) = Inr (dst', vo') \<Longrightarrow>
     sum_fst vo' = sum_fst vo + sum_fst (offsets d) \<and>
     sum_snd vo' = sum_snd vo + sum_snd (offsets d) \<and>
     length dst' = length dst + sum_fst (offsets d) \<and>
     sum_fst (offsets d) \<le> length (indices d)"
  unfolding compileIndices_def using loop_sums [of M "offsets d" "indices d" 0 dst vo "(0, 0)" dst' vo']
  by simp


lemma compile_indices_all_sums:
  "compile_indices_all M ms (dst, vo) = Inr (dst', vo') \<Longrightarrow>
     sum_fst vo' = sum_fst vo + sum_list (map (\<lambda>d. sum_fst (offsets d)) ms) \<and>
     sum_snd vo' = sum_snd vo + sum_list (map (\<lambda>d. sum_snd (offsets d)) ms) \<and>
     length dst' = length dst + sum_list (map (\<lambda>d. sum_fst (offsets d)) ms)"
proof (induction ms arbitrary: dst vo)
  case Nil
  then show ?case by simp
next
  case (Cons d ms)
  from Cons.prems obtain dst1 vo1 where
    one: "compileIndices M d (dst, vo) = Inr (dst1, vo1)" and
    rest: "compile_indices_all M ms (dst1, vo1) = Inr (dst', vo')"
    by (auto split: sum.splits)
  from compileIndices_sums [OF one] Cons.IH [OF rest] show ?case by simp
qed


lemma loop_append:
  "compileIndices_loop M ps src cur (dst @ ds) (vo @ gs @ [g]) =
     (case compileIndices_loop M ps src cur ds (gs @ [g]) of
        Inl e \<Rightarrow> Inl e
      | Inr (d1, v1) \<Rightarrow> Inr (dst @ d1, vo @ v1))"
proof (induction ps arbitrary: src cur ds gs g)
  case Nil
  then show ?case by simp
next
  case (Cons p ps)
  obtain nI nV where p: "p = (nI, nV)" by (cases p)
  obtain a b where g: "g = (a, b)" by (cases g)
  show ?case
  proof (cases "cur + nV > M")
    case True
    then show ?thesis
      using Cons.IH [of "drop nI src" "0 + nV" "ds @ map (rebase 0) (take nI src)" "gs @ [g]" "(nI, nV)"]
      by (simp add: p g)
  next
    case False
    then show ?thesis
      using Cons.IH [of "drop nI src" "cur + nV" "ds @ map (rebase cur) (take nI src)" gs "(a + nI, b + nV)"]
      by (simp add: p g)
  qed
qed

lemma compileIndices_restart:
  "compileIndices M d (dst, vo) =
     (case compileIndices M d ([], []) of
        Inl e \<Rightarrow> Inl e
      | Inr (dst1, vo1) \<Rightarrow> Inr (dst @ dst1, vo @ vo1))"
  using loop_append [of M "offsets d" "indices d" 0 dst "[]" vo "[]" "(0, 0)"]
  by (simp add: compileIndices_def)

section \<open>Lemmas about the two compile entry points\<close>

lemma compile_meshes_InrD:
  "compile_meshes M stride ms mesh = Inr m' \<Longrightarrow>
   \<exists>vdata dst vo. compile_indices_all M ms ([], m_vertexOffsets mesh) = Inr (dst, vo)
     \<and> length dst = sum_list (map (\<lambda>m. length (indices m)) ms)
     \<and> m' = mesh\<lparr> m_isCompiled := True,
            m_nVertices := sum_list (map (\<lambda>m. length (vertices m)) ms),
            m_nIndices := sum_list (map (\<lambda>m. length (indices m)) ms),
            m_glVertexData := Some vdata, m_glIndexData := Some dst, m_vertexOffsets := vo \<rparr>"
  by (auto simp: compile_meshes_def Let_def split: sum.splits if_splits)

lemma compile_meshes_sums:
  assumes "compile_meshes M stride ms mesh = Inr m'" "m_vertexOffsets mesh = []"
  shows "sum_fst (m_vertexOffsets m') = m_nIndices m'"
    and "sum_snd (m_vertexOffsets m') = sum_list (map (\<lambda>d. sum_snd (offsets d)) ms)"
    and "m_nVertices m' = sum_list (map (\<lambda>d. length (vertices d)) ms)"
proof -
  from compile_meshes_InrD [OF assms(1)] obtain vdata dst vo where
    all: "compile_indices_all M ms ([], m_vertexOffsets mesh) = Inr (dst, vo)" and
    len: "length dst = sum_list (map (\<lambda>m. length (indices m)) ms)" and
    m': "m' = mesh\<lparr> m_isCompiled := True,
            m_nVertices := sum_list (map (\<lambda>m. length (vertices m)) ms),
            m_nIndices := sum_list (map (\<lambda>m. length (indices m)) ms),
            m_glVertexData := Some vdata, m_glIndexData := Some dst, m_vertexOffsets := vo \<rparr>"
    by blast
  from compile_indices_all_sums [OF all] assms(2) len
  show "sum_fst (m_vertexOffsets m') = m_nIndices m'"
    and "sum_snd (m_vertexOffsets m') = sum_list (map (\<lambda>d. sum_snd (offsets d)) ms)"
    and "m_nVertices m' = sum_list (map (\<lambda>d. length (vertices d)) ms)"
    by (simp_all add: m')
qed



lemma read_bytes_InrD: "read_bytes vs n = Inr bytes \<Longrightarrow> n \<le> length (concat vs) \<and> bytes = take n (concat vs)"
  by (auto simp: read_bytes_def split: if_splits)

lemma compile_loop_unindexed:
  "compile_loop M stride vcap icap False vs is (vOff, iOff, vdata, idata, vo)
     = Inr (vOff', iOff', vdata', idata', vo') \<Longrightarrow>
   vOff' = vOff + length (concat vs) \<and> iOff' = iOff \<and> idata' = idata \<and> vo' = vo"
proof (induction vs arbitrary: "is" vOff vdata)
  case Nil
  then show ?case by simp
next
  case (Cons v vs)
  from Cons.prems obtain bytes where
    rec: "compile_loop M stride vcap icap False vs (tl is)
           (vOff + length v, iOff, vdata @ bytes, idata, vo) = Inr (vOff', iOff', vdata', idata', vo')"
    by (auto simp: Let_def split: sum.splits if_splits)
  from Cons.IH [OF rec] show ?case by simp
qed

lemma compile_loop_vertex_bytes:
  "compile_loop M stride vcap icap useIndices vs is (vOff, iOff, vdata, idata, vo)
     = Inr (vOff', iOff', vdata', idata', vo') \<Longrightarrow>
   length (concat vs) * stride \<le> length (concat (concat vs))"
proof (induction vs arbitrary: "is" vOff iOff vdata idata vo)
  case Nil
  then show ?case by simp
next
  case (Cons v vs)
  from Cons.prems obtain bytes where rb: "read_bytes v (length v * stride) = Inr bytes"
    by (auto simp: Let_def split: sum.splits)
  from Cons.prems rb obtain "is1" vOff1 iOff1 vdata1 idata1 vo1 where
    rec: "compile_loop M stride vcap icap useIndices vs is1 (vOff1, iOff1, vdata1, idata1, vo1)
           = Inr (vOff', iOff', vdata', idata', vo')"
    by (auto simp: Let_def split: sum.splits if_splits list.splits)
  from Cons.IH [OF rec] read_bytes_InrD [OF rb] show ?case
    by (simp add: add_mult_distrib)
qed

lemma compile_loop_indexed:
  "length vs = length is \<Longrightarrow>
   compile_loop M stride vcap icap True vs is (vOff, iOff, vdata, idata, vo)
     = Inr (vOff', iOff', vdata', idata', vo') \<Longrightarrow>
   compileIndices_loop M (batch_sizes vs is) (concat is)
       vOff idata (vo @ [(iOff, vOff)])
     = Inr (idata', vo' @ [(iOff', vOff')])"
proof (induction vs "is" arbitrary: vOff iOff vdata idata vo rule: list_induct2)
  case Nil
  then show ?case by simp
next
  case (Cons v vs ix "is")
  from Cons.prems obtain bytes where rb: "read_bytes v (length v * stride) = Inr bytes"
    by (auto simp: Let_def split: sum.splits)
  show ?case
  proof (cases "vOff + length v > M")
    case True
    with Cons.prems rb have
      rec: "compile_loop M stride vcap icap True vs is
             (length v, length ix, vdata @ bytes, idata @ map (rebase 0) ix, vo @ [(iOff, vOff)])
            = Inr (vOff', iOff', vdata', idata', vo')"
      by (auto simp: Let_def split: if_splits)
    from Cons.IH [OF rec] True show ?thesis by simp
  next
    case False
    with Cons.prems rb have
      rec: "compile_loop M stride vcap icap True vs is
             (vOff + length v, iOff + length ix, vdata @ bytes, idata @ map (rebase vOff) ix, vo)
            = Inr (vOff', iOff', vdata', idata', vo')"
      by (auto simp: Let_def split: if_splits)
    from Cons.IH [OF rec] False show ?thesis by simp
  qed
qed

lemma sum_fst_zip:
  "length vs = length is \<Longrightarrow>
   sum_fst (batch_sizes vs is) = length (concat is)"
  by (induction vs "is" rule: list_induct2) auto

lemma sum_snd_zip:
  "length vs = length is \<Longrightarrow>
   sum_snd (batch_sizes vs is) = length (concat vs)"
  by (induction vs "is" rule: list_induct2) auto

lemma length_indeterminate [simp]: "length (indeterminate n) = n"
  by (simp add: indeterminate_def)

lemma compile_arrays_InrD:
  assumes "compile_arrays M stride vs is mesh = Inr m'"
  shows "\<exists>vOff iOff vdata idata vo.
     compile_loop M stride (stride * m_nVertices mesh) (m_nIndices mesh) (m_nIndices mesh > 0)
        vs is (0, 0, [], [], m_vertexOffsets mesh) = Inr (vOff, iOff, vdata, idata, vo)
     \<and> m' = mesh\<lparr> m_glVertexData :=
                   Some (vdata @ drop (length vdata) (indeterminate (stride * m_nVertices mesh))),
                 m_glIndexData :=
                   (if m_nIndices mesh > 0
                    then Some (idata @ drop (length idata) (indeterminate (m_nIndices mesh)))
                    else m_glIndexData mesh),
                 m_vertexOffsets := vo @ [(iOff, vOff)], m_isCompiled := True \<rparr>"
proof (cases "compile_loop M stride (stride * m_nVertices mesh) (m_nIndices mesh)
                (m_nIndices mesh > 0) vs is (0, 0, [], [], m_vertexOffsets mesh)")
  case (Inl e)
  with assms show ?thesis by (simp add: compile_arrays_def)
next
  case (Inr r)
  obtain vOff iOff vdata idata vo where r: "r = (vOff, iOff, vdata, idata, vo)"
    by (cases r)
  from assms Inr r have "m' = mesh\<lparr> m_glVertexData :=
                   Some (vdata @ drop (length vdata) (indeterminate (stride * m_nVertices mesh))),
                 m_glIndexData :=
                   (if m_nIndices mesh > 0
                    then Some (idata @ drop (length idata) (indeterminate (m_nIndices mesh)))
                    else m_glIndexData mesh),
                 m_vertexOffsets := vo @ [(iOff, vOff)], m_isCompiled := True \<rparr>"
    by (simp add: compile_arrays_def)
  with Inr r show ?thesis by blast
qed

lemma compile_arrays_indexed:
  assumes "compile_arrays M stride vs is mesh = Inr m'" "length vs = length is" "0 < m_nIndices mesh"
  shows "\<exists>idata tail. compileIndices M (to_MeshData vs is) ([], m_vertexOffsets mesh)
            = Inr (idata, m_vertexOffsets m') \<and> m_glIndexData m' = Some (idata @ tail)
          \<and> length idata = length (concat is)
          \<and> length tail = m_nIndices mesh - length (concat is)
          \<and> m_nVertices m' = m_nVertices mesh \<and> m_nIndices m' = m_nIndices mesh
          \<and> length (concat vs) * stride \<le> length (concat (concat vs))"
proof -
  from compile_arrays_InrD [OF assms(1)] assms(3) obtain vOff iOff vdata idata vo where
    loop: "compile_loop M stride (stride * m_nVertices mesh) (m_nIndices mesh) True
        vs is (0, 0, [], [], m_vertexOffsets mesh) = Inr (vOff, iOff, vdata, idata, vo)" and
    m': "m' = mesh\<lparr> m_glVertexData :=
                   Some (vdata @ drop (length vdata) (indeterminate (stride * m_nVertices mesh))),
                 m_glIndexData :=
                   Some (idata @ drop (length idata) (indeterminate (m_nIndices mesh))),
                 m_vertexOffsets := vo @ [(iOff, vOff)], m_isCompiled := True \<rparr>"
    by auto
  have ci: "compileIndices_loop M (batch_sizes vs is) (concat is) 0 []
              (m_vertexOffsets mesh @ [(0, 0)]) = Inr (idata, vo @ [(iOff, vOff)])"
    using compile_loop_indexed [OF assms(2) loop] .
  have len: "length idata = length (concat is)"
    using loop_sums [OF ci] assms(2) by (simp add: sum_fst_zip)
  from ci len compile_loop_vertex_bytes [OF loop]
  show ?thesis by (simp add: m' compileIndices_def to_MeshData_def)
qed

text \<open>The buffers of the mesh have the sizes they were allocated with.\<close>

lemma compile_loop_positions:
  "compile_loop M stride vcap icap useIndices vs is (vOff, iOff, vdata, idata, vo)
     = Inr (vOff', iOff', vdata', idata', vo') \<Longrightarrow>
   length vdata \<le> vcap \<Longrightarrow> length idata \<le> icap \<Longrightarrow>
   length vdata' \<le> vcap \<and> length idata' \<le> icap"
proof (induction vs arbitrary: "is" vOff iOff vdata idata vo)
  case Nil
  then show ?case by simp
next
  case (Cons v vs)
  from Cons.prems(1) obtain "is1" vOff1 iOff1 vdata1 idata1 vo1 where
    rec: "compile_loop M stride vcap icap useIndices vs is1 (vOff1, iOff1, vdata1, idata1, vo1)
           = Inr (vOff', iOff', vdata', idata', vo')" and
    pos: "length vdata1 \<le> vcap" "length idata1 \<le> icap"
    using Cons.prems(2,3)
    by (auto simp: Let_def read_bytes_def split: sum.splits if_splits list.splits)
  from Cons.IH [OF rec pos] show ?case .
qed

lemma compile_arrays_allocated:
  assumes "compile_arrays M stride vs is mesh = Inr m'"
  shows "\<exists>vbuf. m_glVertexData m' = Some vbuf \<and> length vbuf = stride * m_nVertices mesh"
    and "0 < m_nIndices mesh \<Longrightarrow>
         \<exists>ibuf. m_glIndexData m' = Some ibuf \<and> length ibuf = m_nIndices mesh"
proof -
  from compile_arrays_InrD [OF assms] obtain vOff iOff vdata idata vo where
    loop: "compile_loop M stride (stride * m_nVertices mesh) (m_nIndices mesh) (m_nIndices mesh > 0)
        vs is (0, 0, [], [], m_vertexOffsets mesh) = Inr (vOff, iOff, vdata, idata, vo)" and
    m': "m' = mesh\<lparr> m_glVertexData :=
                   Some (vdata @ drop (length vdata) (indeterminate (stride * m_nVertices mesh))),
                 m_glIndexData :=
                   (if m_nIndices mesh > 0
                    then Some (idata @ drop (length idata) (indeterminate (m_nIndices mesh)))
                    else m_glIndexData mesh),
                 m_vertexOffsets := vo @ [(iOff, vOff)], m_isCompiled := True \<rparr>"
    by blast
  from compile_loop_positions [OF loop] have
    pos: "length vdata \<le> stride * m_nVertices mesh" "length idata \<le> m_nIndices mesh"
    by simp_all
  show "\<exists>vbuf. m_glVertexData m' = Some vbuf \<and> length vbuf = stride * m_nVertices mesh"
    using pos(1) by (simp add: m')
  show "\<exists>ibuf. m_glIndexData m' = Some ibuf \<and> length ibuf = m_nIndices mesh"
    if "0 < m_nIndices mesh"
    using pos(2) that by (simp add: m')
qed


lemma compile_arrays_sums:
  assumes "compile_arrays M stride vs is mesh = Inr m'" "m_vertexOffsets mesh = []"
    "length vs = length is"
  shows "sum_snd (m_vertexOffsets m') = length (concat vs)"
    and "sum_fst (m_vertexOffsets m') = (if 0 < m_nIndices mesh then length (concat is) else 0)"
    and "m_nVertices m' = m_nVertices mesh" and "m_nIndices m' = m_nIndices mesh"
proof -
  have "sum_snd (m_vertexOffsets m') = length (concat vs)
      \<and> sum_fst (m_vertexOffsets m') = (if 0 < m_nIndices mesh then length (concat is) else 0)
      \<and> m_nVertices m' = m_nVertices mesh \<and> m_nIndices m' = m_nIndices mesh"
  proof (cases "0 < m_nIndices mesh")
    case True
    from compile_arrays_indexed [OF assms(1,3) True] assms(2) obtain idata where
      ci: "compileIndices M (to_MeshData vs is) ([], []) = Inr (idata, m_vertexOffsets m')" and
      cnt: "m_nVertices m' = m_nVertices mesh" "m_nIndices m' = m_nIndices mesh"
      by auto
    from compileIndices_sums [OF ci] assms(3) cnt True show ?thesis
      by (simp add: to_MeshData_def sum_fst_zip sum_snd_zip)
  next
    case False
    from compile_arrays_InrD [OF assms(1)] assms(2) False obtain vOff iOff vdata idata vo where
      loop: "compile_loop M stride (stride * m_nVertices mesh) (m_nIndices mesh) False
        vs is (0, 0, [], [], []) = Inr (vOff, iOff, vdata, idata, vo)" and
      m': "m' = mesh\<lparr> m_glVertexData :=
                   Some (vdata @ drop (length vdata) (indeterminate (stride * m_nVertices mesh))),
                 m_vertexOffsets := vo @ [(iOff, vOff)], m_isCompiled := True \<rparr>"
      by auto
    from compile_loop_unindexed [OF loop] False show ?thesis
      by (simp add: m')
  qed
  then show "sum_snd (m_vertexOffsets m') = length (concat vs)"
    and "sum_fst (m_vertexOffsets m') = (if 0 < m_nIndices mesh then length (concat is) else 0)"
    and "m_nVertices m' = m_nVertices mesh" and "m_nIndices m' = m_nIndices mesh"
    by simp_all
qed

lemma rebase_add: "rebase c w = w + of_nat c"
  by (simp add: rebase_def)

lemma increasing_indices_rebase:
  "increasing_indices a @ map (rebase a) (increasing_indices b) = increasing_indices (a + b)"
proof -
  have "map (rebase a) (increasing_indices b) = map of_nat (map (\<lambda>k. k + a) [0..<b])"
    by (simp add: increasing_indices_def rebase_add)
  also have "map (\<lambda>k. k + a) [0..<b] = [a..<a + b]"
    by (simp add: map_add_upt add.commute)
  finally have m: "map (rebase a) (increasing_indices b) = map of_nat [a..<a + b]" .
  have u: "[0..<a + b] = [0..<a] @ [a..<a + b]"
    by (rule upt_add_eq_append) simp
  show ?thesis
    unfolding m by (simp only: increasing_indices_def u map_append)
qed


lemma length_concat_replicate: "length (concat (replicate n v)) = n * length v"
  by (induction n) auto

lemma length_increasing_indices [simp]: "length (increasing_indices n) = n"
  by (simp add: increasing_indices_def)

lemma increasing_indices_nth: "k < n \<Longrightarrow> increasing_indices n ! k = of_nat k"
  by (simp add: increasing_indices_def)

lemma single_loop:
  "M < nV \<Longrightarrow> nI \<le> length src \<Longrightarrow>
   compileIndices_loop M [(nI, nV)] src 0 dst (vo @ [(0, 0)])
     = Inr (dst @ take nI src, vo @ [(0, 0), (nI, nV)])"
  by simp

lemma single_batch_meshes:
  assumes "M < nV" "length vs * stride \<le> length (concat vs)"
  shows "compile_meshes M stride [\<lparr> offsets = [(length ixs, nV)], vertices = vs, indices = ixs \<rparr>] mesh
   = Inr (mesh\<lparr> m_isCompiled := True, m_nVertices := length vs, m_nIndices := length ixs,
            m_glVertexData := Some (take (length vs * stride) (concat vs)),
            m_glIndexData := Some ixs,
            m_vertexOffsets := m_vertexOffsets mesh @ [(0, 0), (length ixs, nV)] \<rparr>)"
proof -
  have rb: "read_bytes vs (length vs * stride) = Inr (take (length vs * stride) (concat vs))"
    using assms(2) by (simp add: read_bytes_def)
  have ci: "compileIndices M \<lparr> offsets = [(length ixs, nV)], vertices = vs, indices = ixs \<rparr>
              ([], m_vertexOffsets mesh)
            = Inr (ixs, m_vertexOffsets mesh @ [(0, 0), (length ixs, nV)])"
    unfolding compileIndices_def using single_loop [OF assms(1), of "length ixs" ixs "[]"]
    by simp
  show ?thesis
    by (simp add: compile_meshes_def Let_def rb ci)
qed


lemma single_batch_arrays:
  assumes "M < length vs" "length vs * stride \<le> length (concat vs)" "ixs \<noteq> []"
  shows "compile_arrays M stride [vs] [ixs]
      (mesh\<lparr> m_nVertices := length vs, m_nIndices := length ixs \<rparr>)
   = Inr (mesh\<lparr> m_nVertices := length vs, m_nIndices := length ixs,
            m_glVertexData := Some (take (length vs * stride) (concat vs)),
            m_glIndexData := Some ixs,
            m_vertexOffsets := m_vertexOffsets mesh @ [(0, 0), (length ixs, length vs)],
            m_isCompiled := True \<rparr>)"
proof -
  have rb: "read_bytes vs (length vs * stride) = Inr (take (length vs * stride) (concat vs))"
    using assms(2) by (simp add: read_bytes_def)
  show ?thesis using assms
    by (simp add: compile_arrays_def Let_def rb mult.commute [of stride "length vs"])
qed


section \<open>Lemmas about the mutators\<close>

lemma size_t_id: "0 \<le> x \<Longrightarrow> x < 2 ^ 64 \<Longrightarrow> size_t x = x"
  by (simp add: size_t_def)

lemma size_t_neg: "- (2 ^ 64) \<le> x \<Longrightarrow> x < 0 \<Longrightarrow> size_t x = x + 2 ^ 64"
proof -
  assume a: "- (2 ^ 64) \<le> x" "x < 0"
  have "x mod 2 ^ 64 = (x + 2 ^ 64) mod 2 ^ 64" by simp
  also have "\<dots> = x + 2 ^ 64" using a by (intro mod_pos_pos_trivial) auto
  finally show ?thesis by (simp add: size_t_def)
qed

lemma size_t_mult: "size_t (size_t a * b) = size_t (a * b)"
  by (simp add: size_t_def mod_mult_left_eq)

lemma size_t_add: "size_t (size_t a + size_t b) = size_t (a + b)"
  by (simp add: size_t_def mod_add_eq)

lemma size_t_add_left: "size_t (size_t a + b) = size_t (a + b)"
  by (simp add: size_t_def mod_add_left_eq)

lemma size_t_diff: "size_t (size_t a - size_t b) = size_t (a - b)"
  by (simp add: size_t_def mod_diff_eq)

lemma GLsizei_size_t: "GLsizei (size_t x) = GLsizei x"
proof -
  have "(x mod 2 ^ 64 + 2 ^ 31) mod (2 ^ 32 :: int) = (x + 2 ^ 31) mod 2 ^ 32"
  proof -
    have "(x mod 2 ^ 64 + 2 ^ 31) mod (2 ^ 32 :: int)
            = ((x mod 2 ^ 64) mod 2 ^ 32 + 2 ^ 31) mod 2 ^ 32"
      by (simp add: mod_add_left_eq)
    also have "(x mod 2 ^ 64) mod (2 ^ 32 :: int) = x mod 2 ^ 32"
      by (rule mod_mod_cancel) simp
    finally show ?thesis by (simp add: mod_add_left_eq)
  qed
  then show ?thesis by (simp add: GLsizei_def size_t_def)
qed


lemma GLintptr_size_t: "GLintptr (size_t x) = GLintptr x"
  by (simp add: GLintptr_def size_t_def mod_add_left_eq)

lemma GLsizei_id: "- (2 ^ 31) \<le> x \<Longrightarrow> x < 2 ^ 31 \<Longrightarrow> GLsizei x = x"
  by (simp add: GLsizei_def)

lemma GLintptr_id: "- (2 ^ 63) \<le> x \<Longrightarrow> x < 2 ^ 63 \<Longrightarrow> GLintptr x = x"
  by (simp add: GLintptr_def)

lemma setDirty_clean:
  "\<not> m_dirty m \<Longrightarrow>
   setDirty byteOffset byteSize m
     = m\<lparr> m_dirty := True, m_dirtySize := byteSize, m_dirtyOffset := byteOffset \<rparr>"
  by (simp add: setDirty_def)


lemma write_loop_skip:
  "\<not> offset < end_sz \<Longrightarrow> write_loop tSize src n offset end_sz buf = Inr buf"
  by (simp add: write_loop.simps)

lemma write_loop_oob:
  "offset < end_sz \<Longrightarrow> 0 < tSize \<Longrightarrow> length buf < offset + n \<Longrightarrow>
   write_loop tSize src n offset end_sz buf = Inl OutOfBounds"
  by (simp add: write_loop.simps memcpy_def)

lemma prod_bounds:
  fixes a :: int
  assumes "- (2 ^ 31) \<le> a" "a < 2 ^ 31" "0 < t" "t < 2 ^ 31"
  shows "- (2 ^ 62) \<le> a * t" "a * t < 2 ^ 62"
proof -
  have "\<bar>a * t\<bar> = \<bar>a\<bar> * \<bar>t\<bar>" by (simp add: abs_mult)
  also have "\<dots> \<le> 2 ^ 31 * \<bar>t\<bar>" using assms by (intro mult_right_mono) auto
  also have "\<dots> < 2 ^ 31 * 2 ^ 31" using assms by simp
  finally have "\<bar>a * t\<bar> < 2 ^ 62" by simp
  then show "- (2 ^ 62) \<le> a * t" "a * t < 2 ^ 62" by auto
qed

lemma sign_mult:
  fixes a :: int
  assumes "0 < t"
  shows "(a * t < 0) = (a < 0)" "(0 < a * t) = (0 < a)" "(0 \<le> a * t) = (0 \<le> a)" "(a * t \<le> 0) = (a \<le> 0)"
  using assms by (auto simp: mult_less_0_iff zero_less_mult_iff zero_le_mult_iff mult_le_0_iff)

lemma int32_id: "- (2 ^ 31) \<le> x \<Longrightarrow> x < 2 ^ 31 \<Longrightarrow> int32 x = x"
  by (simp add: int32_def)

text \<open>
  When the sum and the vertex count fit an \<^verbatim>\<open>int\<close>, the guard of \<^verbatim>\<open>updateVertices\<close>
  compares their exact values.
\<close>

lemma guard_exact:
  "- (2 ^ 31) \<le> x \<Longrightarrow> x < 2 ^ 31 \<Longrightarrow> int n < 2 ^ 31 \<Longrightarrow>
   (int32 (int n) < int32 x) = (int n < x)"
  by (simp add: int32_id)

lemma updateVertices_negative_start:
  assumes buf: "m_glVertexData m = Some buf"
    and neg: "start r < 0"
    and upper: "start r + length_r r \<le> int (m_nVertices m)"
    and fits: "- (2 ^ 31) \<le> start r + length_r r" "int (m_nVertices m) < 2 ^ 31"
    and rng: "- (2 ^ 31) \<le> start r" "- (2 ^ 31) \<le> length_r r" "length_r r < 2 ^ 31"
    and tsz: "0 < tSize" "int tSize < 2 ^ 31"
    and mem: "int (length buf) \<le> 2 ^ 63"
  shows "updateVertices tSize r v m =
           (if 0 < length_r r \<and> start r + length_r r < 0 then Inl OutOfBounds
            else Inr (setDirty (start r * int tSize) (GLsizei (length_r r * int tSize)) m))"
proof -
  define s where "s = start r * int tSize"
  define l where "l = length_r r * int tSize"
  define S where "S = size_t (size_t (start r) * int tSize)"
  define E where "E = size_t (S + size_t (size_t (length_r r) * int tSize))"
  have t0: "0 < int tSize" using tsz by simp
  have sb: "- (2 ^ 62) \<le> s" "s < 0"
    using prod_bounds(1) [of "start r" "int tSize"] rng neg tsz sign_mult(1) [OF t0, of "start r"]
    by (auto simp: s_def)
  have lb: "- (2 ^ 62) \<le> l" "l < 2 ^ 62"
    using prod_bounds [of "length_r r" "int tSize"] rng tsz by (auto simp: l_def)
  have sl: "s + l = (start r + length_r r) * int tSize"
    by (simp add: s_def l_def distrib_right)
  have S': "S = size_t s" by (simp add: S_def size_t_mult s_def)
  have S: "S = s + 2 ^ 64" using sb by (simp add: S' size_t_neg)
  have E: "E = size_t (s + l)"
    by (simp add: E_def S' size_t_mult l_def [symmetric] size_t_add)
  have ptr: "GLintptr S = s"
    using sb by (simp add: S' GLintptr_size_t GLintptr_id)
  have sz: "GLsizei (size_t (E - S)) = GLsizei l"
    by (simp add: E S' size_t_diff GLsizei_size_t)
  have same: "m\<lparr> m_glVertexData := Some buf \<rparr> = m"
    using buf by (cases m) auto
  have guard: "\<not> int32 (int (m_nVertices m)) < int32 (start r + length_r r)"
    using guard_exact [of "start r + length_r r" "m_nVertices m"] fits neg rng upper by simp
  have unfold: "updateVertices tSize r v m =
      (case write_loop tSize v tSize (nat S) (nat E) buf of
         Inl e \<Rightarrow> Inl e
       | Inr buf' \<Rightarrow> Inr (setDirty (GLintptr S) (GLsizei (size_t (E - S)))
                          (m\<lparr> m_glVertexData := Some buf' \<rparr>)))"
    unfolding E_def S_def using guard by (simp add: updateVertices_def buf Let_def)
  show ?thesis
  proof (cases "0 < length_r r \<and> start r + length_r r < 0")
    case True
    have neg_sum: "s + l < 0"
      using True sign_mult(1) [OF t0, of "start r + length_r r"] by (simp add: sl)
    have lpos: "0 < l"
      using True sign_mult(2) [OF t0, of "length_r r"] by (simp add: l_def)
    have e: "E = s + l + 2 ^ 64"
      unfolding E using neg_sum sb lb by (intro size_t_neg) auto
    have lt: "nat S < nat E" using lpos sb by (simp add: S e)
    have far: "length buf < nat S + tSize" using mem sb by (simp add: S)
    show ?thesis
      using True by (simp add: unfold write_loop_oob [OF lt tsz(1) far])
  next
    case False
    have nolt: "\<not> nat S < nat E"
    proof (cases "0 \<le> start r + length_r r")
      case True
      then have "0 \<le> s + l"
        using sign_mult(3) [OF t0, of "start r + length_r r"] by (simp add: sl)
      then have "E = s + l" unfolding E using sb lb by (intro size_t_id) auto
      then show ?thesis using sb lb by (simp add: S)
    next
      case F: False
      with False have "length_r r \<le> 0" by auto
      then have l0: "l \<le> 0"
        using sign_mult(4) [OF t0, of "length_r r"] by (simp add: l_def)
      from F have "s + l < 0"
        using sign_mult(1) [OF t0, of "start r + length_r r"] by (simp add: sl)
      then have "E = s + l + 2 ^ 64" unfolding E using sb lb by (intro size_t_neg) auto
      then show ?thesis using l0 by (simp add: S)
    qed
    show ?thesis
      using False
      by (simp add: unfold write_loop_skip [OF nolt] ptr sz same s_def [symmetric] l_def [symmetric])
  qed
qed


lemma memcpy_ok:
  "offset + n \<le> length buf \<Longrightarrow> n \<le> length src \<Longrightarrow>
   memcpy buf offset src n = Inr (take offset buf @ take n src @ drop (offset + n) buf)"
  by (simp add: memcpy_def)

lemma write_loop_step:
  "offset < end_sz \<Longrightarrow> 0 < tSize \<Longrightarrow> offset + n \<le> length buf \<Longrightarrow> n \<le> length src \<Longrightarrow>
   write_loop tSize src n offset end_sz buf =
     write_loop tSize src n (offset + tSize) end_sz
       (take offset buf @ take n src @ drop (offset + n) buf)"
  by (subst write_loop.simps) (simp add: memcpy_ok)

lemma write_loop_fill:
  "0 < tSize \<Longrightarrow> length src = tSize \<Longrightarrow> off + k * tSize \<le> length buf \<Longrightarrow>
   write_loop tSize src tSize off (off + k * tSize) buf
     = Inr (take off buf @ concat (replicate k src) @ drop (off + k * tSize) buf)"
proof (induction k arbitrary: off buf)
  case 0
  then show ?case by (simp add: write_loop_skip)
next
  case (Suc k)
  let ?b1 = "take off buf @ take tSize src @ drop (off + tSize) buf"
  have len: "length ?b1 = length buf" using Suc.prems by simp
  have step: "write_loop tSize src tSize off (off + Suc k * tSize) buf
                = write_loop tSize src tSize (off + tSize) (off + tSize + k * tSize) ?b1"
    using Suc.prems write_loop_step [of off "off + Suc k * tSize" tSize tSize buf src]
    by (simp add: add.assoc)
  have ih: "write_loop tSize src tSize (off + tSize) (off + tSize + k * tSize) ?b1
              = Inr (take (off + tSize) ?b1 @ concat (replicate k src)
                     @ drop (off + tSize + k * tSize) ?b1)"
    using Suc.prems len by (intro Suc.IH) simp_all
  have t: "take (off + tSize) ?b1 = take off buf @ src"
    using Suc.prems by simp
  have d: "drop (off + tSize + k * tSize) ?b1 = drop (off + Suc k * tSize) buf"
    using Suc.prems by (simp add: add.assoc add.commute)
  show ?case by (simp only: step ih t d) simp
qed


lemma size_t_add_right: "size_t (a + size_t b) = size_t (a + b)"
  by (simp add: size_t_def mod_add_right_eq)

lemma size_t_nat: "int n < 2 ^ 64 \<Longrightarrow> size_t (int n) = int n"
  by (simp add: size_t_id)

lemma take_concat_replicate:
  "a \<le> n \<Longrightarrow> take (a * length v) (concat (replicate n v)) = concat (replicate a v)"
proof -
  assume "a \<le> n"
  then have "replicate n v = replicate a v @ replicate (n - a) v"
    by (simp add: replicate_add [symmetric])
  then show ?thesis by (simp add: length_concat_replicate)
qed

lemma drop_concat_replicate:
  "a \<le> n \<Longrightarrow> drop (a * length v) (concat (replicate n v)) = concat (replicate (n - a) v)"
proof -
  assume "a \<le> n"
  then have "replicate n v = replicate a v @ replicate (n - a) v"
    by (simp add: replicate_add [symmetric])
  then show ?thesis by (simp add: length_concat_replicate)
qed

lemma nth_memcpy:
  "off + n \<le> length buf \<Longrightarrow> n \<le> length src \<Longrightarrow> p < length buf \<Longrightarrow>
   (take off buf @ take n src @ drop (off + n) buf) ! p
     = (if off \<le> p \<and> p < off + n then src ! (p - off) else buf ! p)"
  by (auto simp: nth_append min_def)

lemma write_loop_bytes:
  assumes "0 < t" "n \<le> t" "n \<le> length src"
  shows "k = 0 \<or> off + (k - 1) * t + n \<le> length buf \<Longrightarrow>
    \<exists>buf'. write_loop t src n off (off + k * t) buf = Inr buf' \<and> length buf' = length buf
       \<and> (\<forall>p<length buf. buf' ! p =
            (if off \<le> p \<and> (p - off) div t < k \<and> (p - off) mod t < n
             then src ! ((p - off) mod t) else buf ! p))"
proof (induction k arbitrary: off buf)
  case 0
  then show ?case by (simp add: write_loop_skip)
next
  case (Suc k)
  let ?b1 = "take off buf @ take n src @ drop (off + n) buf"
  from Suc.prems have bound: "off + k * t + n \<le> length buf" by simp
  then have fits: "off + n \<le> length buf" by simp
  have len1: "length ?b1 = length buf" using fits assms(3) by simp
  have step: "write_loop t src n off (off + Suc k * t) buf
                = write_loop t src n (off + t) (off + t + k * t) ?b1"
    using write_loop_step [of off "off + Suc k * t" t n buf src] assms fits
    by (simp add: add.assoc)
  have pre: "k = 0 \<or> off + t + (k - 1) * t + n \<le> length ?b1"
  proof (cases k)
    case 0
    then show ?thesis by simp
  next
    case (Suc j)
    then show ?thesis using bound len1 by simp
  qed
  from Suc.IH [OF pre] obtain buf' where
    run: "write_loop t src n (off + t) (off + t + k * t) ?b1 = Inr buf'" and
    len': "length buf' = length ?b1" and
    nth': "\<forall>p<length ?b1. buf' ! p =
            (if off + t \<le> p \<and> (p - (off + t)) div t < k \<and> (p - (off + t)) mod t < n
             then src ! ((p - (off + t)) mod t) else ?b1 ! p)"
    by blast
  have "buf' ! p =
            (if off \<le> p \<and> (p - off) div t < Suc k \<and> (p - off) mod t < n
             then src ! ((p - off) mod t) else buf ! p)" if p: "p < length buf" for p
  proof -
    have b1: "?b1 ! p = (if off \<le> p \<and> p < off + n then src ! (p - off) else buf ! p)"
      by (rule nth_memcpy [OF fits assms(3) p])
    have ih: "buf' ! p =
            (if off + t \<le> p \<and> (p - (off + t)) div t < k \<and> (p - (off + t)) mod t < n
             then src ! ((p - (off + t)) mod t) else ?b1 ! p)"
      using nth' p len1 by simp
    show ?thesis
    proof (cases "off + t \<le> p")
      case True
      then have q: "t \<le> p - off" by simp
      have d: "(p - off) div t = Suc ((p - (off + t)) div t)"
        using le_div_geq [OF assms(1) q] by simp
      have m: "(p - off) mod t = (p - (off + t)) mod t"
        using le_mod_geq [OF q] by simp
      from True assms(2) have out: "\<not> p < off + n" by simp
      show ?thesis using True by (simp add: ih b1 out d m)
    next
      case False
      show ?thesis
      proof (cases "off \<le> p")
        case True
        with False have lt: "p - off < t" by simp
        have eq: "(p < off + n) = (p - off < n)" using True by auto
        have dm: "(p - off) div t = 0" "(p - off) mod t = p - off" using lt by simp_all
        show ?thesis using False True by (simp add: ih b1 eq dm)
      next
        case F: False
        then show ?thesis using False by (simp add: ih b1)
      qed
    qed
  qed
  then show ?case using step run len' len1 by simp
qed

lemma field_position_a:
  fixes t :: nat
  assumes "0 < t" "k0 + n \<le> t" "s * t + k0 \<le> p" "(p - (s * t + k0)) mod t < n"
  shows "p div t = s + (p - (s * t + k0)) div t" "p mod t = k0 + (p - (s * t + k0)) mod t"
proof -
  define q where "q = p - (s * t + k0)"
  have p: "p = (s + q div t) * t + (k0 + q mod t)"
    using assms(3) by (simp add: q_def add_mult_distrib)
  have small: "k0 + q mod t < t" using assms(2,4) by (simp add: q_def)
  have "p div t = (s + q div t) + (k0 + q mod t) div t"
    using assms(1) by (subst p) (simp only: div_mult_self3)
  then show "p div t = s + (p - (s * t + k0)) div t"
    using small by (simp add: q_def)
  show "p mod t = k0 + (p - (s * t + k0)) mod t"
    by (metis q_def mod_mult_self3 mod_less small p)
qed


lemma field_position_b:
  fixes t :: nat
  assumes "0 < t" "k0 + n \<le> t" "s \<le> p div t" "k0 \<le> p mod t" "p mod t < k0 + n"
  shows "s * t + k0 \<le> p" "(p - (s * t + k0)) div t = p div t - s"
    "(p - (s * t + k0)) mod t = p mod t - k0"
proof -
  define j where "j = p div t - s"
  define i where "i = p mod t - k0"
  have p: "p = (s + j) * t + (k0 + i)"
    using assms(3,4) div_mult_mod_eq [of p t] by (simp add: j_def i_def)
  show le: "s * t + k0 \<le> p" by (subst p) (simp add: add_mult_distrib)
  have q: "p - (s * t + k0) = j * t + i" by (subst p) (simp add: add_mult_distrib)
  have i: "i < t" using assms(2,5) by (simp add: i_def)
  show "(p - (s * t + k0)) div t = p div t - s"
    using assms(1) i by (simp add: q j_def [symmetric])
  show "(p - (s * t + k0)) mod t = p mod t - k0"
    using i by (simp add: q i_def [symmetric])
qed

lemma field_position:
  fixes t :: nat
  assumes "0 < t" "k0 + n \<le> t"
  shows "(if s * t + k0 \<le> p \<and> (p - (s * t + k0)) div t < k \<and> (p - (s * t + k0)) mod t < n
          then src ! ((p - (s * t + k0)) mod t) else g)
       = (if s \<le> p div t \<and> p div t < s + k \<and> k0 \<le> p mod t \<and> p mod t < k0 + n
          then src ! (p mod t - k0) else g)"
proof (cases "s * t + k0 \<le> p \<and> (p - (s * t + k0)) div t < k \<and> (p - (s * t + k0)) mod t < n")
  case True
  then have "p div t = s + (p - (s * t + k0)) div t" "p mod t = k0 + (p - (s * t + k0)) mod t"
    using field_position_a [OF assms, of s p] by simp_all
  with True show ?thesis by simp
next
  case False
  show ?thesis
  proof (cases "s \<le> p div t \<and> p div t < s + k \<and> k0 \<le> p mod t \<and> p mod t < k0 + n")
    case True
    then have "s * t + k0 \<le> p" "(p - (s * t + k0)) div t = p div t - s"
      "(p - (s * t + k0)) mod t = p mod t - k0"
      using field_position_b [OF assms, of s p] by simp_all
    with True False show ?thesis by auto
  next
    case F: False
    show ?thesis by (simp only: False F if_False)
  qed
qed


section \<open>Empty input\<close>

lemma compile_meshes_Nil:
  "compile_meshes M stride [] mesh =
     Inr (mesh\<lparr> m_isCompiled := True, m_nVertices := 0, m_nIndices := 0,
            m_glVertexData := Some [], m_glIndexData := Some [] \<rparr>)"
  by (simp add: compile_meshes_def)

lemma compile_arrays_Nil:
  "compile_arrays M stride [] is mesh =
     Inr (mesh\<lparr> m_glVertexData := Some (indeterminate (stride * m_nVertices mesh)),
            m_glIndexData := (if m_nIndices mesh > 0 then Some (indeterminate (m_nIndices mesh))
                              else m_glIndexData mesh),
            m_vertexOffsets := m_vertexOffsets mesh @ [(0, 0)],
            m_isCompiled := True \<rparr>)"
  by (simp add: compile_arrays_def)

text \<open>
  Claim C4 as stated fails for the entry point that takes a sequence of \<^verbatim>\<open>MeshData\<close>:
  the \<open>(0, 0)\<close> group is opened by \<^verbatim>\<open>compileIndices\<close>, once per input mesh, so with no
  input mesh the group list of a new mesh stays empty.
\<close>

theorem compile_meshes_empty_no_group:
  "compile_meshes 65536 4 [] new_mesh =
     Inr (new_mesh\<lparr> m_isCompiled := True, m_nVertices := 0, m_nIndices := 0,
            m_glVertexData := Some [], m_glIndexData := Some [] \<rparr>)
   \<and> m_vertexOffsets (new_mesh\<lparr> m_isCompiled := True, m_nVertices := 0, m_nIndices := 0,
            m_glVertexData := Some [], m_glIndexData := Some [] \<rparr>) \<noteq> [(0, 0)]"
  by (simp add: compile_meshes_Nil) (simp add: new_mesh_def)

text \<open>
  Claim C4, amended. Compiling empty input through the parallel-arrays entry point
  leaves the vertex and index counts as they were (both 0 on a new mesh) and appends
  exactly one empty \<open>(0, 0)\<close> group to the group list; through the entry point that takes
  a sequence of \<^verbatim>\<open>MeshData\<close> it sets both counts to 0 and adds no group, so the group list
  of a new mesh stays empty.
\<close>

theorem compile_empty_input:
  "(\<exists>m'. compile_arrays M stride [] [] mesh = Inr m'
        \<and> m_nVertices m' = m_nVertices mesh \<and> m_nIndices m' = m_nIndices mesh
        \<and> m_vertexOffsets m' = m_vertexOffsets mesh @ [(0, 0)])
   \<and> (\<exists>m'. compile_arrays M stride [] [] new_mesh = Inr m'
        \<and> m_nVertices m' = 0 \<and> m_nIndices m' = 0 \<and> m_vertexOffsets m' = [(0, 0)])
   \<and> (\<exists>m'. compile_meshes M stride [] mesh = Inr m'
        \<and> m_nVertices m' = 0 \<and> m_nIndices m' = 0
        \<and> m_vertexOffsets m' = m_vertexOffsets mesh)
   \<and> (\<exists>m'. compile_meshes M stride [] new_mesh = Inr m'
        \<and> m_nVertices m' = 0 \<and> m_nIndices m' = 0 \<and> m_vertexOffsets m' = [])"
  by (simp add: compile_meshes_Nil compile_arrays_Nil new_mesh_def)

section \<open>Worked examples\<close>

lemma triangles_grouped:
  "compile_meshes 65536 1 [triangle, triangle] new_mesh = Inr grouped_triangles"
  by (simp add: compile_meshes_def compileIndices_def read_bytes_def triangle_def new_mesh_def
        rebase_def grouped_triangles_def)

lemma triangles_arrays:
  "compile_arrays 65536 1 [triangle_vertices, triangle_vertices]
       [triangle_indices, triangle_indices] counted_mesh = Inr arrays_triangles"
  by (simp add: compile_arrays_def read_bytes_def triangle_vertices_def triangle_indices_def
        counted_mesh_def new_mesh_def rebase_def arrays_triangles_def)

text \<open>
  One triangle compiled into a mesh whose counts were set for two: the vertex buffer has
  six bytes, three of them never written, and a later \<^verbatim>\<open>updateVertices\<close> of vertex 4
  writes into the buffer.
\<close>

lemma write_after_partial_fill:
  "\<exists>ma buf m'. compile_arrays 65536 1 [triangle_vertices] [triangle_indices] counted_mesh = Inr ma
     \<and> m_glVertexData ma = Some buf \<and> length buf = 6
     \<and> updateVertices 1 \<lparr> start = 4, length_r = 1 \<rparr> [7] ma = Inr m'
     \<and> m_glVertexData m' = Some (take 4 buf @ [7] @ drop 5 buf)"
  by (simp add: compile_arrays_def read_bytes_def triangle_vertices_def triangle_indices_def
        counted_mesh_def new_mesh_def rebase_def updateVertices_def int32_def size_t_def
        write_loop.simps memcpy_def setDirty_def)


lemma examples_wf:
  "m_vertexOffsets new_mesh = []" "m_vertexOffsets counted_mesh = []"
  "list_all (\<lambda>d. sum_snd (offsets d) = length (vertices d)) [triangle, triangle]"
  "list_all (\<lambda>d. batches_ok 65536 (offsets d) (indices d)) [triangle, triangle]"
  "length [triangle_vertices, triangle_vertices] = length [triangle_indices, triangle_indices]"
  "m_nVertices counted_mesh = length (concat [triangle_vertices, triangle_vertices])"
  "m_nIndices counted_mesh = length (concat [triangle_indices, triangle_indices])"
  "0 < m_nIndices counted_mesh"
  "arrays_ok 65536 [triangle_vertices, triangle_vertices] [triangle_indices, triangle_indices]"
  by (simp_all add: new_mesh_def counted_mesh_def triangle_def triangle_vertices_def
        triangle_indices_def)

section \<open>Conservation\<close>

text \<open>
  Claim C5 as stated fails. The vertex count of a group is the sum of the vertex counts
  that the batch descriptors declare, and nothing compares it with the vertices that
  were passed: a \<^verbatim>\<open>MeshData\<close> of three vertices whose descriptor declares five
  compiles to one group of five vertices in a mesh of three. The entry point for
  parallel arrays reads \<^verbatim>\<open>m_nVertices\<close> and \<^verbatim>\<open>m_nIndices\<close> and never sets them: one triangle
  compiled into a mesh whose counts were set for two gives one group \<open>(3, 3)\<close> in a mesh
  of six vertices and six indices.
\<close>

theorem declared_counts_not_checked:
  "compile_meshes 65536 1 [miscounted_triangle] new_mesh = Inr miscounted_mesh
   \<and> sum_snd (m_vertexOffsets miscounted_mesh) = 5
   \<and> m_nVertices miscounted_mesh = 3
   \<and> \<not> conserved miscounted_mesh
   \<and> (\<exists>ma. compile_arrays 65536 1 [triangle_vertices] [triangle_indices] counted_mesh = Inr ma
         \<and> m_vertexOffsets ma = [(3, 3)] \<and> m_nVertices ma = 6 \<and> m_nIndices ma = 6
         \<and> \<not> conserved ma)"
  by (simp add: compile_meshes_def compile_arrays_def compileIndices_def read_bytes_def
        miscounted_triangle_def miscounted_mesh_def triangle_vertices_def triangle_indices_def
        counted_mesh_def new_mesh_def rebase_def conserved_def)

text \<open>
  Claim C5, amended. For a mesh compiled once (no group recorded before) from a sequence
  of \<^verbatim>\<open>MeshData\<close>, the index counts of the groups add up to the index count of the mesh;
  the vertex counts of the groups add up to the total of the vertex counts declared in
  the batch descriptors, while the vertex count of the mesh is the number of vertices
  passed; so the mesh is conserved exactly when the declared vertex counts add up to the
  number of vertices. For a mesh compiled once from parallel arrays (as many vertex
  arrays as index arrays), the vertex counts of the groups add up to the number of
  vertices passed and the index counts of the groups to the number of indices passed
  (to 0 for a mesh without indices), while the counts of the mesh stay what the caller
  set; so the mesh is conserved exactly when the caller set them to these totals.
\<close>

theorem conservation:
  "(compile_meshes M stride ms mesh = Inr mg \<and> m_vertexOffsets mesh = []
    \<longrightarrow> sum_fst (m_vertexOffsets mg) = m_nIndices mg
        \<and> sum_snd (m_vertexOffsets mg) = sum_list (map (\<lambda>d. sum_snd (offsets d)) ms)
        \<and> m_nVertices mg = sum_list (map (\<lambda>d. length (vertices d)) ms)
        \<and> conserved mg = (sum_list (map (\<lambda>d. sum_snd (offsets d)) ms)
                            = sum_list (map (\<lambda>d. length (vertices d)) ms)))
   \<and> (compile_arrays M stride vs is mesh = Inr ma \<and> m_vertexOffsets mesh = []
      \<and> length vs = length is
    \<longrightarrow> sum_snd (m_vertexOffsets ma) = length (concat vs)
        \<and> sum_fst (m_vertexOffsets ma) = (if 0 < m_nIndices mesh then length (concat is) else 0)
        \<and> m_nVertices ma = m_nVertices mesh \<and> m_nIndices ma = m_nIndices mesh
        \<and> conserved ma = (length (concat vs) = m_nVertices mesh
                            \<and> (if 0 < m_nIndices mesh then length (concat is) else 0)
                                = m_nIndices mesh))"
proof (intro conjI impI)
  assume a: "compile_meshes M stride ms mesh = Inr mg \<and> m_vertexOffsets mesh = []"
  then have c: "compile_meshes M stride ms mesh = Inr mg" and e: "m_vertexOffsets mesh = []"
    by simp_all
  show "sum_fst (m_vertexOffsets mg) = m_nIndices mg"
    by (rule compile_meshes_sums(1) [OF c e])
  show "sum_snd (m_vertexOffsets mg) = sum_list (map (\<lambda>d. sum_snd (offsets d)) ms)"
    by (rule compile_meshes_sums(2) [OF c e])
  show "m_nVertices mg = sum_list (map (\<lambda>d. length (vertices d)) ms)"
    by (rule compile_meshes_sums(3) [OF c e])
  show "conserved mg = (sum_list (map (\<lambda>d. sum_snd (offsets d)) ms)
                            = sum_list (map (\<lambda>d. length (vertices d)) ms))"
    by (simp add: conserved_def compile_meshes_sums [OF c e])
next
  assume a: "compile_arrays M stride vs is mesh = Inr ma \<and> m_vertexOffsets mesh = []
      \<and> length vs = length is"
  then have c: "compile_arrays M stride vs is mesh = Inr ma" and e: "m_vertexOffsets mesh = []"
    and l: "length vs = length is"
    by simp_all
  show "sum_snd (m_vertexOffsets ma) = length (concat vs)"
    by (rule compile_arrays_sums(1) [OF c e l])
  show "sum_fst (m_vertexOffsets ma) = (if 0 < m_nIndices mesh then length (concat is) else 0)"
    by (rule compile_arrays_sums(2) [OF c e l])
  show "m_nVertices ma = m_nVertices mesh"
    by (rule compile_arrays_sums(3) [OF c e l])
  show "m_nIndices ma = m_nIndices mesh"
    by (rule compile_arrays_sums(4) [OF c e l])
  show "conserved ma = (length (concat vs) = m_nVertices mesh
                            \<and> (if 0 < m_nIndices mesh then length (concat is) else 0)
                                = m_nIndices mesh)"
    by (simp add: conserved_def compile_arrays_sums [OF c e l] conj_commute)
qed

text \<open>
  Claim C5, amended, at two triangles, through both entry points: the counts agree, and
  both meshes are conserved.
\<close>

theorem conservation_witness:
  "compile_meshes 65536 1 [triangle, triangle] new_mesh = Inr grouped_triangles
   \<and> m_vertexOffsets new_mesh = []
   \<and> sum_fst (m_vertexOffsets grouped_triangles) = m_nIndices grouped_triangles
   \<and> sum_snd (m_vertexOffsets grouped_triangles) = 6
   \<and> m_nVertices grouped_triangles = 6
   \<and> conserved grouped_triangles
   \<and> compile_arrays 65536 1 [triangle_vertices, triangle_vertices]
        [triangle_indices, triangle_indices] counted_mesh = Inr arrays_triangles
   \<and> m_vertexOffsets counted_mesh = []
   \<and> length [triangle_vertices, triangle_vertices] = length [triangle_indices, triangle_indices]
   \<and> sum_snd (m_vertexOffsets arrays_triangles) = 6
   \<and> sum_fst (m_vertexOffsets arrays_triangles) = 6
   \<and> conserved arrays_triangles"
proof -
  have g: "sum_fst (m_vertexOffsets grouped_triangles) = m_nIndices grouped_triangles
      \<and> sum_snd (m_vertexOffsets grouped_triangles) = 6
      \<and> m_nVertices grouped_triangles = 6 \<and> conserved grouped_triangles"
    using conservation [THEN conjunct1, of 65536 1 "[triangle, triangle]" new_mesh grouped_triangles]
      triangles_grouped examples_wf(1)
    by (simp add: triangle_def)
  have a: "sum_snd (m_vertexOffsets arrays_triangles) = 6
      \<and> sum_fst (m_vertexOffsets arrays_triangles) = 6 \<and> conserved arrays_triangles"
    using conservation [THEN conjunct2, of 65536 1 "[triangle_vertices, triangle_vertices]"
        "[triangle_indices, triangle_indices]" counted_mesh arrays_triangles]
      triangles_arrays examples_wf(2,5)
    by (simp add: triangle_vertices_def triangle_indices_def counted_mesh_def new_mesh_def)
  show ?thesis
    using g a triangles_grouped triangles_arrays examples_wf by blast
qed


section \<open>Group bound\<close>





section \<open>Overflow splitting\<close>

text \<open>
  Claim C2 as stated fails: a batch is never divided. With \<^verbatim>\<open>MAX_INDEX_VALUE\<close> = 65536,
  one batch of 70000 one-byte vertices with the indices 0, 1, ..., 69999 (each stored in
  16 bits) compiles to the groups \<open>(0, 0)\<close> and \<open>(70000, 70000)\<close>: the first group holds no
  vertex, nothing is left over for a later group, and the group that holds the batch
  has more than 65536 vertices.
\<close>

theorem single_batch_not_split:
  "compile_meshes 65536 1
      [\<lparr> offsets = [(70000, 70000)], vertices = replicate 70000 [0],
         indices = increasing_indices 70000 \<rparr>] new_mesh
     = Inr (new_mesh\<lparr> m_isCompiled := True, m_nVertices := 70000, m_nIndices := 70000,
              m_glVertexData := Some (replicate 70000 0),
              m_glIndexData := Some (increasing_indices 70000),
              m_vertexOffsets := [(0, 0), (70000, 70000)] \<rparr>)
   \<and> snd ([(0, 0), (70000, 70000)] ! 0) = (0 :: nat)
   \<and> \<not> snd ([(0, 0), (70000, 70000)] ! 1) \<le> (65536 :: nat)
   \<and> \<not> list_all (\<lambda>g. snd g \<le> (65536 :: nat)) [(0, 0), (70000, 70000)]"
  using single_batch_meshes [of 65536 70000 "replicate 70000 [0]" 1
      "increasing_indices 70000" new_mesh]
  by (simp add: length_concat_replicate new_mesh_def)

text \<open>
  Claim C2, amended. With \<^verbatim>\<open>MAX_INDEX_VALUE\<close> = 65536, one batch of 70000 vertices (of any
  vertex value \<open>v\<close>, with \<^verbatim>\<open>stride\<close> = \<^verbatim>\<open>sizeof(T)\<close>) and the indices 0, 1, ..., 69999 (each
  stored in 16 bits) compiles, through either entry point, to exactly two groups: the
  empty group \<open>(0, 0)\<close>, and one group with all 70000 indices and all 70000 vertices; the
  indices are stored as they were passed. A new group is opened only between batches: the
  same 70000 vertices passed as batches of 30000, 30000 and 10000 vertices, each with the
  indices 0, 1, ... of its own vertices, compile to the groups \<open>(60000, 60000)\<close> and
  \<open>(10000, 10000)\<close>; the indices of the first group are 0, 1, ..., 59999 (those of the
  second batch rebased by 30000), and the indices of the second group start again at 0.
\<close>

theorem overflow_splitting:
  "(\<exists>mg ma.
     compile_meshes 65536 (length v)
        [\<lparr> offsets = [(70000, 70000)], vertices = replicate 70000 v,
           indices = increasing_indices 70000 \<rparr>] new_mesh = Inr mg
     \<and> compile_arrays 65536 (length v) [replicate 70000 v] [increasing_indices 70000]
          (new_mesh\<lparr> m_nVertices := 70000, m_nIndices := 70000 \<rparr>) = Inr ma
     \<and> m_vertexOffsets mg = [(0, 0), (70000, 70000)]
     \<and> m_vertexOffsets ma = [(0, 0), (70000, 70000)]
     \<and> m_glIndexData mg = Some (increasing_indices 70000)
     \<and> m_glIndexData ma = Some (increasing_indices 70000))
   \<and> (\<exists>mg ma.
     compile_meshes 65536 (length v)
        [\<lparr> offsets = [(30000, 30000), (30000, 30000), (10000, 10000)],
           vertices = replicate 70000 v,
           indices = increasing_indices 30000 @ increasing_indices 30000
                       @ increasing_indices 10000 \<rparr>] new_mesh = Inr mg
     \<and> compile_arrays 65536 (length v)
          [replicate 30000 v, replicate 30000 v, replicate 10000 v]
          [increasing_indices 30000, increasing_indices 30000, increasing_indices 10000]
          (new_mesh\<lparr> m_nVertices := 70000, m_nIndices := 70000 \<rparr>) = Inr ma
     \<and> m_vertexOffsets mg = [(60000, 60000), (10000, 10000)]
     \<and> m_vertexOffsets ma = [(60000, 60000), (10000, 10000)]
     \<and> m_glIndexData mg = Some (increasing_indices 60000 @ increasing_indices 10000)
     \<and> m_glIndexData ma = Some (increasing_indices 60000 @ increasing_indices 10000))"
proof (rule conjI)
  have g: "compile_meshes 65536 (length v)
        [\<lparr> offsets = [(70000, 70000)], vertices = replicate 70000 v,
           indices = increasing_indices 70000 \<rparr>] new_mesh
     = Inr (new_mesh\<lparr> m_isCompiled := True, m_nVertices := 70000, m_nIndices := 70000,
              m_glVertexData := Some (take (70000 * length v) (concat (replicate 70000 v))),
              m_glIndexData := Some (increasing_indices 70000),
              m_vertexOffsets := [(0, 0), (70000, 70000)] \<rparr>)"
    using single_batch_meshes [of 65536 70000 "replicate 70000 v" "length v"
        "increasing_indices 70000" new_mesh]
    by (simp add: length_concat_replicate new_mesh_def)
  have ne: "increasing_indices 70000 \<noteq> []"
    using length_increasing_indices [of 70000] by (cases "increasing_indices 70000") simp_all
  have a: "compile_arrays 65536 (length v) [replicate 70000 v] [increasing_indices 70000]
          (new_mesh\<lparr> m_nVertices := 70000, m_nIndices := 70000 \<rparr>)
     = Inr (new_mesh\<lparr> m_nVertices := 70000, m_nIndices := 70000,
              m_glVertexData := Some (take (70000 * length v) (concat (replicate 70000 v))),
              m_glIndexData := Some (increasing_indices 70000),
              m_vertexOffsets := [(0, 0), (70000, 70000)], m_isCompiled := True \<rparr>)"
    using single_batch_arrays [of 65536 "replicate 70000 v" "length v"
        "increasing_indices 70000" new_mesh] ne
    by (simp add: length_concat_replicate new_mesh_def)
  show "\<exists>mg ma.
     compile_meshes 65536 (length v)
        [\<lparr> offsets = [(70000, 70000)], vertices = replicate 70000 v,
           indices = increasing_indices 70000 \<rparr>] new_mesh = Inr mg
     \<and> compile_arrays 65536 (length v) [replicate 70000 v] [increasing_indices 70000]
          (new_mesh\<lparr> m_nVertices := 70000, m_nIndices := 70000 \<rparr>) = Inr ma
     \<and> m_vertexOffsets mg = [(0, 0), (70000, 70000)]
     \<and> m_vertexOffsets ma = [(0, 0), (70000, 70000)]
     \<and> m_glIndexData mg = Some (increasing_indices 70000)
     \<and> m_glIndexData ma = Some (increasing_indices 70000)"
    unfolding g a by simp
next
  have r: "increasing_indices 30000 @ map (rebase 30000) (increasing_indices 30000)
             = increasing_indices 60000"
    using increasing_indices_rebase [of 30000 30000] by simp
  have g: "\<exists>mg. compile_meshes 65536 (length v)
        [\<lparr> offsets = [(30000, 30000), (30000, 30000), (10000, 10000)],
           vertices = replicate 70000 v,
           indices = increasing_indices 30000 @ increasing_indices 30000
                       @ increasing_indices 10000 \<rparr>] new_mesh = Inr mg
     \<and> m_vertexOffsets mg = [(60000, 60000), (10000, 10000)]
     \<and> m_glIndexData mg = Some (increasing_indices 60000 @ increasing_indices 10000)"
    by (simp add: compile_meshes_def compileIndices_def read_bytes_def Let_def
          length_concat_replicate new_mesh_def r [symmetric])
  have a: "\<exists>ma. compile_arrays 65536 (length v)
          [replicate 30000 v, replicate 30000 v, replicate 10000 v]
          [increasing_indices 30000, increasing_indices 30000, increasing_indices 10000]
          (new_mesh\<lparr> m_nVertices := 70000, m_nIndices := 70000 \<rparr>) = Inr ma
     \<and> m_vertexOffsets ma = [(60000, 60000), (10000, 10000)]
     \<and> m_glIndexData ma = Some (increasing_indices 60000 @ increasing_indices 10000)"
    by (simp add: compile_arrays_def read_bytes_def Let_def
          length_concat_replicate new_mesh_def r [symmetric])
  from g a show "\<exists>mg ma.
     compile_meshes 65536 (length v)
        [\<lparr> offsets = [(30000, 30000), (30000, 30000), (10000, 10000)],
           vertices = replicate 70000 v,
           indices = increasing_indices 30000 @ increasing_indices 30000
                       @ increasing_indices 10000 \<rparr>] new_mesh = Inr mg
     \<and> compile_arrays 65536 (length v)
          [replicate 30000 v, replicate 30000 v, replicate 10000 v]
          [increasing_indices 30000, increasing_indices 30000, increasing_indices 10000]
          (new_mesh\<lparr> m_nVertices := 70000, m_nIndices := 70000 \<rparr>) = Inr ma
     \<and> m_vertexOffsets mg = [(60000, 60000), (10000, 10000)]
     \<and> m_vertexOffsets ma = [(60000, 60000), (10000, 10000)]
     \<and> m_glIndexData mg = Some (increasing_indices 60000 @ increasing_indices 10000)
     \<and> m_glIndexData ma = Some (increasing_indices 60000 @ increasing_indices 10000)"
    by blast
qed


section \<open>The two entry points\<close>

text \<open>
  Claim C3 as stated fails: two triangles given as two meshes and the same two triangles
  given as parallel arrays compile to different index streams and different groups.
  \<^verbatim>\<open>compileIndices\<close> opens a group and starts its vertex count at 0 for every mesh.
\<close>

theorem entry_points_differ:
  "compile_arrays 65536 1 [triangle_vertices, triangle_vertices]
       [triangle_indices, triangle_indices] counted_mesh = Inr arrays_triangles
   \<and> compile_meshes 65536 1
        [to_MeshData [triangle_vertices] [triangle_indices],
         to_MeshData [triangle_vertices] [triangle_indices]] counted_mesh
       = Inr (grouped_triangles\<lparr> m_nVertices := 6, m_nIndices := 6 \<rparr>)
   \<and> m_glIndexData arrays_triangles = Some [0, 1, 2, 3, 4, 5]
   \<and> m_glIndexData (grouped_triangles\<lparr> m_nVertices := 6, m_nIndices := 6 \<rparr>)
       = Some [0, 1, 2, 0, 1, 2]
   \<and> m_vertexOffsets arrays_triangles = [(6, 6)]
   \<and> m_vertexOffsets (grouped_triangles\<lparr> m_nVertices := 6, m_nIndices := 6 \<rparr>)
       = [(3, 3), (3, 3)]"
proof -
  have t: "to_MeshData [triangle_vertices] [triangle_indices] = triangle"
    by (simp add: to_MeshData_def triangle_def triangle_vertices_def triangle_indices_def)
  have g: "compile_meshes 65536 1 [triangle, triangle] counted_mesh
       = Inr (grouped_triangles\<lparr> m_nVertices := 6, m_nIndices := 6 \<rparr>)"
    by (simp add: compile_meshes_def compileIndices_def read_bytes_def triangle_def new_mesh_def
        rebase_def grouped_triangles_def counted_mesh_def)
  show ?thesis
    using triangles_arrays g
    by (simp add: t) (simp add: grouped_triangles_def arrays_triangles_def)
qed

text \<open>
  Claim C3, amended. For a mesh with indices (\<^verbatim>\<open>m_nIndices > 0\<close>), when compile from
  parallel arrays returns, compile from the one \<^verbatim>\<open>MeshData\<close> that holds the same batches
  returns too, with the same index stream and the same groups. The index buffer of the
  parallel-arrays entry point is allocated with the \<^verbatim>\<open>m_nIndices\<close> its caller set: it
  holds the index stream of the other entry point, followed by the
  \<open>m_nIndices - length (concat is)\<close> cells that were never written; the two index buffers
  are equal when the caller set \<^verbatim>\<open>m_nIndices\<close> to the number of indices passed. The
  partitioning state does not continue across meshes: what \<^verbatim>\<open>compileIndices\<close> adds for a
  mesh is what it produces for that mesh from the empty state, appended to the index
  stream and the groups recorded before.
\<close>

theorem entry_points_single_mesh:
  "(compile_arrays M stride vs is mesh = Inr ma \<and> length vs = length is \<and> 0 < m_nIndices mesh
    \<longrightarrow> (\<exists>mg stream tail. compile_meshes M stride [to_MeshData vs is] mesh = Inr mg
           \<and> m_glIndexData mg = Some stream
           \<and> m_glIndexData ma = Some (stream @ tail)
           \<and> length stream = length (concat is)
           \<and> length stream + length tail = m_nIndices mesh
           \<and> (m_nIndices mesh = length (concat is) \<longrightarrow> m_glIndexData mg = m_glIndexData ma)
           \<and> m_vertexOffsets mg = m_vertexOffsets ma))
   \<and> compileIndices M d (dst, vo) =
       (case compileIndices M d ([], []) of
          Inl e \<Rightarrow> Inl e
        | Inr (dst1, vo1) \<Rightarrow> Inr (dst @ dst1, vo @ vo1))"
proof (intro conjI impI)
  assume a: "compile_arrays M stride vs is mesh = Inr ma \<and> length vs = length is
    \<and> 0 < m_nIndices mesh"
  from compile_arrays_indexed [of M stride vs "is" mesh ma] a obtain idata tail where
    ci: "compileIndices M (to_MeshData vs is) ([], m_vertexOffsets mesh)
           = Inr (idata, m_vertexOffsets ma)" and
    idata: "m_glIndexData ma = Some (idata @ tail)" and
    len: "length idata = length (concat is)" and
    tail: "length tail = m_nIndices mesh - length (concat is)" and
    bytes: "length (concat vs) * stride \<le> length (concat (concat vs))"
    by auto
  from compile_arrays_allocated(2) [of M stride vs "is" mesh ma] a idata
  have total: "length idata + length tail = m_nIndices mesh"
    by auto
  have rb: "read_bytes (concat vs) (length (concat vs) * stride)
              = Inr (take (length (concat vs) * stride) (concat (concat vs)))"
    using bytes by (simp add: read_bytes_def)
  have "compile_meshes M stride [to_MeshData vs is] mesh
          = Inr (mesh\<lparr> m_isCompiled := True, m_nVertices := length (concat vs),
                   m_nIndices := length (concat is),
                   m_glVertexData := Some (take (length (concat vs) * stride) (concat (concat vs))),
                   m_glIndexData := Some idata, m_vertexOffsets := m_vertexOffsets ma \<rparr>)"
    using ci len rb by (simp add: compile_meshes_def Let_def to_MeshData_def)
  then show "\<exists>mg stream tail. compile_meshes M stride [to_MeshData vs is] mesh = Inr mg
           \<and> m_glIndexData mg = Some stream
           \<and> m_glIndexData ma = Some (stream @ tail)
           \<and> length stream = length (concat is)
           \<and> length stream + length tail = m_nIndices mesh
           \<and> (m_nIndices mesh = length (concat is) \<longrightarrow> m_glIndexData mg = m_glIndexData ma)
           \<and> m_vertexOffsets mg = m_vertexOffsets ma"
    using idata len tail total by (intro exI [of _ idata] exI [of _ tail] exI) auto
next
  show "compileIndices M d (dst, vo) =
       (case compileIndices M d ([], []) of
          Inl e \<Rightarrow> Inl e
        | Inr (dst1, vo1) \<Rightarrow> Inr (dst @ dst1, vo @ vo1))"
    by (rule compileIndices_restart)
qed

text \<open>Claim C3, amended, at two triangles in one mesh.\<close>

theorem entry_points_single_mesh_witness:
  "compile_arrays 65536 1 [triangle_vertices, triangle_vertices]
       [triangle_indices, triangle_indices] counted_mesh = Inr arrays_triangles
   \<and> length [triangle_vertices, triangle_vertices] = length [triangle_indices, triangle_indices]
   \<and> 0 < m_nIndices counted_mesh
   \<and> (\<exists>mg. compile_meshes 65536 1
              [to_MeshData [triangle_vertices, triangle_vertices]
                 [triangle_indices, triangle_indices]] counted_mesh = Inr mg
          \<and> m_glIndexData mg = m_glIndexData arrays_triangles
          \<and> m_vertexOffsets mg = m_vertexOffsets arrays_triangles)"
  using entry_points_single_mesh [THEN conjunct1, of 65536 1
      "[triangle_vertices, triangle_vertices]" "[triangle_indices, triangle_indices]"
      counted_mesh arrays_triangles]
    triangles_arrays examples_wf(5,7,8)
  by blast

section \<open>The dirty tracker\<close>





section \<open>updateVertices: rejected ranges\<close>

lemma quad_mesh_simps:
  "m_glVertexData quad_mesh = Some [0, 0, 0, 0, 0, 0, 0, 0]" "m_nVertices quad_mesh = 2"
  "\<not> m_dirty quad_mesh"
  by (simp_all add: quad_mesh_def new_mesh_def)




section \<open>updateVertices: the lower bounds of the range\<close>

text \<open>
  For ranges with \<open>0 \<le> start\<close>, \<open>0 \<le> length\<close> and \<open>start + length \<le> vertexCount\<close> the
  property of claim C6 holds (the buffer is smaller than \<open>2 ^ 31\<close> bytes, what a
  \<^verbatim>\<open>GLsizei\<close> can measure): the vertices of the range are overwritten, the bytes before
  and after them are kept, and \<^verbatim>\<open>setDirty\<close> is called with the byte span of the range.
\<close>

lemma updateVertices_overwrites:
  assumes buf: "m_glVertexData m = Some buf"
    and lo: "0 \<le> start r" "0 \<le> length_r r"
    and hi: "start r + length_r r \<le> int (m_nVertices m)"
    and len: "length buf = m_nVertices m * tSize" "length v = tSize"
    and tsz: "0 < tSize"
    and small: "int (length buf) < 2 ^ 31"
  shows "updateVertices tSize r v m =
           Inr (setDirty (start r * int tSize) (length_r r * int tSize)
                  (m\<lparr> m_glVertexData :=
                       Some (take (nat (start r) * tSize) buf
                             @ concat (replicate (nat (length_r r)) v)
                             @ drop ((nat (start r) + nat (length_r r)) * tSize) buf) \<rparr>))"
proof -
  obtain a where a: "start r = int a" using lo(1) by (metis nat_0_le)
  obtain k where k: "length_r r = int k" using lo(2) by (metis nat_0_le)
  have akN: "a + k \<le> m_nVertices m" using hi a k by simp
  have akt: "(a + k) * tSize \<le> length buf" using akN len(1) by simp
  then have at: "a * tSize \<le> length buf" and kt: "k * tSize \<le> length buf"
    by (simp_all add: add_mult_distrib)
  define S where "S = size_t (size_t (start r) * int tSize)"
  define E where "E = size_t (S + size_t (size_t (length_r r) * int tSize))"
  have nV: "int (m_nVertices m) < 2 ^ 31"
  proof -
    have "m_nVertices m \<le> m_nVertices m * tSize"
      using tsz by (cases tSize) auto
    then have "m_nVertices m \<le> length buf" by (simp only: len(1))
    then show ?thesis using small by linarith
  qed
  have guard: "\<not> int32 (int (m_nVertices m)) < int32 (start r + length_r r)"
    using guard_exact [of "start r + length_r r" "m_nVertices m"] nV lo hi by simp
  have unfold: "updateVertices tSize r v m =
      (case write_loop tSize v tSize (nat S) (nat E) buf of
         Inl e \<Rightarrow> Inl e
       | Inr buf' \<Rightarrow> Inr (setDirty (GLintptr S) (GLsizei (size_t (E - S)))
                          (m\<lparr> m_glVertexData := Some buf' \<rparr>)))"
    unfolding E_def S_def using guard by (simp add: updateVertices_def buf Let_def)
  define p where "p = a * tSize"
  define q where "q = k * tSize"
  have pq: "p + q \<le> length buf" using akt by (simp add: p_def q_def add_mult_distrib)
  have sp: "start r * int tSize = int p" by (simp add: a p_def)
  have lq: "length_r r * int tSize = int q" by (simp add: k q_def)
  have S: "S = int p"
    using pq small by (simp add: S_def size_t_mult sp size_t_id)
  have L: "size_t (size_t (length_r r) * int tSize) = int q"
    using pq small by (simp add: size_t_mult lq size_t_id)
  have E: "E = int (p + q)"
    using pq small by (simp add: E_def S L size_t_id)
  have ptr: "GLintptr S = start r * int tSize"
    using pq small by (simp add: S sp GLintptr_id)
  have sz: "GLsizei (size_t (E - S)) = length_r r * int tSize"
    using pq small by (simp add: E S lq size_t_id GLsizei_id)
  have fill: "write_loop tSize v tSize p (p + q) buf
      = Inr (take p buf @ concat (replicate k v) @ drop (p + q) buf)"
    using write_loop_fill [OF tsz len(2), of p k buf] pq unfolding q_def by simp
  have nS: "nat S = p" "nat E = p + q" by (simp_all add: S E)
  have loop: "write_loop tSize v tSize (nat S) (nat E) buf
      = Inr (take p buf @ concat (replicate k v) @ drop (p + q) buf)"
    by (simp only: nS fill)
  show ?thesis
    by (simp add: unfold loop ptr sz) (simp add: a k p_def q_def add_mult_distrib)
qed

text \<open>The same on a buffer of \<open>N\<close> vertices that all hold \<open>v0\<close>.\<close>

lemma updateVertices_uniform:
  assumes buf: "m_glVertexData m = Some (concat (replicate (m_nVertices m) v0))"
    and lo: "0 \<le> start r" "0 \<le> length_r r"
    and hi: "start r + length_r r \<le> int (m_nVertices m)"
    and len: "length v0 = tSize" "length v1 = tSize"
    and tsz: "0 < tSize"
    and small: "int (m_nVertices m * tSize) < 2 ^ 31"
  shows "updateVertices tSize r v1 m =
           Inr (setDirty (start r * int tSize) (length_r r * int tSize)
                  (m\<lparr> m_glVertexData :=
                       Some (concat (replicate (nat (start r)) v0
                               @ replicate (nat (length_r r)) v1
                               @ replicate (m_nVertices m - (nat (start r) + nat (length_r r))) v0)) \<rparr>))"
proof -
  have l: "length (concat (replicate (m_nVertices m) v0)) = m_nVertices m * tSize"
    by (simp add: length_concat_replicate len)
  have a: "nat (start r) \<le> m_nVertices m" "nat (start r) + nat (length_r r) \<le> m_nVertices m"
    using lo hi by auto
  show ?thesis
    using updateVertices_overwrites [OF buf lo hi l len(2) tsz] small l
      take_concat_replicate [OF a(1), of v0] drop_concat_replicate [OF a(2), of v0]
    by (simp add: len)
qed


text \<open>
  Claim C6 at a range the code accepts and the claim covers: \<open>start = 0\<close>,
  \<open>length = - 1\<close> on a mesh of two vertices (\<open>start + length \<le> 2\<close>, \<open>start \<ge> 0\<close>). The
  claim says that no vertex changes. The code converts the length to \<^verbatim>\<open>size_t\<close>: the loop
  runs from offset 0 to \<open>2 ^ 64 - 4\<close>, overwrites both vertices and writes past the end
  of the buffer.
\<close>

theorem updateVertices_negative_length:
  "updateVertices 4 \<lparr> start = 0, length_r = - 1 \<rparr> [1, 1, 1, 1] quad_mesh = Inl OutOfBounds"
  by (simp add: updateVertices_def quad_mesh_def new_mesh_def int32_def size_t_def
        write_loop.simps memcpy_def)

text \<open>
  When the attribute lies inside the vertex (\<open>attribOffset + sizeof(A) \<le> sizeof(T)\<close>) the
  property of claim C8 holds: an accepted call changes the byte at position \<open>p\<close> only if
  \<open>p\<close> belongs to a vertex of the range and to the bytes of the attribute in it.
\<close>

lemma updateAttribute_writes_fields:
  assumes buf: "m_glVertexData m = Some buf"
    and rng: "0 \<le> start r" "1 \<le> length_r r" "start r + length_r r \<le> int (m_nVertices m)"
    and len: "length buf = m_nVertices m * tSize"
    and field: "k0 < tSize" "k0 + length a \<le> tSize"
    and small: "int (length buf) < 2 ^ 31"
  shows "\<exists>buf'. updateAttribute tSize r a k0 m =
            Inr (setDirty (start r * int tSize + int k0)
                   ((length_r r - 1) * int tSize + int (length a))
                   (m\<lparr> m_glVertexData := Some buf' \<rparr>))
          \<and> length buf' = length buf
          \<and> (\<forall>p<length buf. buf' ! p =
                (if nat (start r) \<le> p div tSize \<and> p div tSize < nat (start r) + nat (length_r r)
                    \<and> k0 \<le> p mod tSize \<and> p mod tSize < k0 + length a
                 then a ! (p mod tSize - k0) else buf ! p))"
proof -
  obtain s where s: "start r = int s" using rng(1) by (metis nat_0_le)
  obtain k where k: "length_r r = int (Suc k)"
    using rng(2) by (intro that [of "nat (length_r r) - 1"]) auto
  have t0: "0 < tSize" using field(1) by simp
  have aS: "length a \<le> tSize" using field(2) by simp
  have skN: "s + Suc k \<le> m_nVertices m" using rng(3) s k by simp
  define top where "top = (s + Suc k) * tSize"
  have top: "top \<le> length buf"
    unfolding top_def len using skN by (rule mult_le_mono1)
  define off where "off = s * tSize + k0"
  define w where "w = k * tSize + length a"
  have w: "off + w \<le> top"
    using field(2) by (simp add: off_def w_def top_def add_mult_distrib)
  define kt1 where "kt1 = Suc k * tSize"
  have kt: "kt1 \<le> top" by (simp add: kt1_def top_def add_mult_distrib)
  have endb: "off + kt1 < 2 ^ 32"
  proof -
    have "off + kt1 = top + k0" by (simp add: off_def top_def kt1_def add_mult_distrib)
    moreover have "k0 < top" using field(1) by (simp add: top_def add_mult_distrib)
    ultimately show ?thesis using top small by simp
  qed
  define S where "S = size_t (size_t (size_t (start r) * int tSize) + int k0)"
  define E where "E = size_t (S + size_t (size_t (length_r r) * int tSize))"
  define D where "D = size_t (size_t (size_t (length_r r - 1) * int tSize) + int (length a))"
  have S: "S = int off"
  proof -
    have "S = size_t (start r * int tSize + int k0)"
      by (simp add: S_def size_t_mult size_t_add_left)
    also have "start r * int tSize + int k0 = int off" by (simp add: s off_def algebra_simps)
    also have "size_t (int off) = int off" using w top small by (intro size_t_id) auto
    finally show ?thesis .
  qed
  have sl: "size_t (size_t (length_r r) * int tSize) = int kt1"
  proof -
    have "size_t (size_t (length_r r) * int tSize) = size_t (length_r r * int tSize)"
      by (simp add: size_t_mult)
    also have "length_r r * int tSize = int kt1" by (simp add: k kt1_def algebra_simps)
    also have "size_t (int kt1) = int kt1"
      using kt top small by (intro size_t_id) auto
    finally show ?thesis .
  qed
  have E: "E = int (off + kt1)"
    using endb by (simp add: E_def S sl size_t_id)
  have D: "D = int w"
  proof -
    have "D = size_t ((length_r r - 1) * int tSize + int (length a))"
      by (simp add: D_def size_t_mult size_t_add_left)
    also have "(length_r r - 1) * int tSize + int (length a) = int w"
      by (simp add: k w_def algebra_simps)
    also have "size_t (int w) = int w" using w top small by (intro size_t_id) auto
    finally show ?thesis .
  qed
  have guard: "\<not> size_t (int32 (start r + length_r r)) > int (m_nVertices m)"
  proof -
    have sum: "start r + length_r r = int (s + Suc k)" by (simp add: s k)
    have "s + Suc k \<le> (s + Suc k) * tSize" using t0 by (cases tSize) simp_all
    then have "s + Suc k \<le> top" by (simp only: top_def)
    then have lt: "int (s + Suc k) < 2 ^ 31" using top small by simp
    then have "int32 (int (s + Suc k)) = int (s + Suc k)"
      by (intro int32_id) simp_all
    moreover have "size_t (int (s + Suc k)) = int (s + Suc k)"
      using lt by (intro size_t_nat) simp
    ultimately have "size_t (int32 (start r + length_r r)) = int (s + Suc k)"
      by (simp only: sum)
    then show ?thesis using skN by simp
  qed
  have unfold: "updateAttribute tSize r a k0 m =
      (case write_loop tSize a (length a) (nat S) (nat E) buf of
         Inl e \<Rightarrow> Inl e
       | Inr buf' \<Rightarrow> Inr (setDirty (GLintptr S) (GLsizei D)
                          (m\<lparr> m_glVertexData := Some buf' \<rparr>)))"
    unfolding S_def E_def D_def using rng(1,2) guard field(1) aS
    by (simp add: updateAttribute_def buf Let_def)
  have bound: "Suc k = 0 \<or> off + (Suc k - 1) * tSize + length a \<le> length buf"
    using w top by (simp add: w_def)
  from write_loop_bytes [OF t0 aS order_refl bound] obtain buf' where
    run: "write_loop tSize a (length a) off (off + Suc k * tSize) buf = Inr buf'" and
    len': "length buf' = length buf" and
    nth': "\<forall>p<length buf. buf' ! p =
            (if off \<le> p \<and> (p - off) div tSize < Suc k \<and> (p - off) mod tSize < length a
             then a ! ((p - off) mod tSize) else buf ! p)"
    by blast
  have ptr: "GLintptr (int off) = start r * int tSize + int k0"
    using w top small by (simp add: GLintptr_id) (simp add: s off_def algebra_simps)
  have sz: "GLsizei (int w) = (length_r r - 1) * int tSize + int (length a)"
    using w top small by (simp add: GLsizei_id) (simp add: k w_def algebra_simps)
  have nth: "buf' ! p =
                (if nat (start r) \<le> p div tSize \<and> p div tSize < nat (start r) + nat (length_r r)
                    \<and> k0 \<le> p mod tSize \<and> p mod tSize < k0 + length a
                 then a ! (p mod tSize - k0) else buf ! p)" if "p < length buf" for p
  proof -
    have ns: "nat (start r) = s" "nat (length_r r) = Suc k" by (simp_all add: s k)
    have "buf' ! p =
            (if off \<le> p \<and> (p - off) div tSize < Suc k \<and> (p - off) mod tSize < length a
             then a ! ((p - off) mod tSize) else buf ! p)"
      using nth' that by blast
    also have "\<dots> = (if s \<le> p div tSize \<and> p div tSize < s + Suc k
                    \<and> k0 \<le> p mod tSize \<and> p mod tSize < k0 + length a
                 then a ! (p mod tSize - k0) else buf ! p)"
      unfolding off_def by (rule field_position [OF t0 field(2)])
    finally show ?thesis by (simp only: ns)
  qed
  have nS: "nat S = off" by (simp add: S)
  have nE: "nat E = off + Suc k * tSize" unfolding E kt1_def by (rule nat_int)
  have "updateAttribute tSize r a k0 m =
          Inr (setDirty (start r * int tSize + int k0)
                 ((length_r r - 1) * int tSize + int (length a))
                 (m\<lparr> m_glVertexData := Some buf' \<rparr>))"
    unfolding unfold nS nE run using ptr sz by (simp add: S D)
  then show ?thesis using len' nth by blast
qed

text \<open>
  Claim C8 at a call the code accepts: a two-byte attribute at offset 3 of a four-byte
  vertex, written to vertex 0 of a mesh of two vertices. \<^verbatim>\<open>attribOffset < sizeof(T)\<close> and
  \<^verbatim>\<open>sizeof(A) \<le> sizeof(T)\<close> hold, yet byte 4 changes: a byte of vertex 1, which is not in
  the range.
\<close>

theorem updateAttribute_spill:
  "updateAttribute 4 \<lparr> start = 0, length_r = 1 \<rparr> [1, 2] 3 quad_mesh
     = Inr (quad_mesh\<lparr> m_glVertexData := Some [0, 0, 0, 1, 2, 0, 0, 0], m_dirty := True,
              m_dirtySize := 2, m_dirtyOffset := 3 \<rparr>)"
  by (simp add: updateAttribute_def quad_mesh_def new_mesh_def int32_def size_t_def
        write_loop.simps memcpy_def setDirty_def GLintptr_def GLsizei_def)

lemma updateAttribute_rejects:
  "m_glVertexData m = Some buf \<Longrightarrow> length a \<le> tSize \<Longrightarrow> start r < 0 \<or> length_r r < 1 \<Longrightarrow>
   updateAttribute tSize r a k m = Inr m"
  by (auto simp: updateAttribute_def)

lemma setDirty_not_same: "\<not> m_dirty m \<Longrightarrow> setDirty a b m \<noteq> m"
proof
  assume "\<not> m_dirty m" "setDirty a b m = m"
  then have "m_dirty (setDirty a b m) = m_dirty m" by simp
  with \<open>\<not> m_dirty m\<close> show False by (simp add: setDirty_def)
qed

text \<open>
  Claim C10 as stated fails at the ends of the \<^verbatim>\<open>int\<close> range, where the guard of
  \<^verbatim>\<open>updateVertices\<close> does reject a range with \<open>start < 0\<close> and
  \<open>start + length \<le> vertexCount\<close>. On a mesh of \<open>2 ^ 31\<close> one-byte vertices the cast
  \<^verbatim>\<open>int(m_nVertices)\<close> is \<open>- 2 ^ 31\<close>, and the range \<open>(- 1, 2)\<close>, whose sum is 1, is
  rejected. On a mesh of two vertices the sum of the range \<open>(- 2 ^ 31, - 1)\<close> wraps to
  \<open>2 ^ 31 - 1\<close>, which is above 2, and the range is rejected. Both calls return the mesh as
  it was.
\<close>

theorem lower_bound_rejected_at_int_limits:
  "start \<lparr> start = - 1, length_r = 2 \<rparr> < 0
   \<and> start \<lparr> start = - 1, length_r = 2 \<rparr> + length_r \<lparr> start = - 1, length_r = 2 \<rparr>
        \<le> int (m_nVertices huge_mesh)
   \<and> updateVertices 1 \<lparr> start = - 1, length_r = 2 \<rparr> [1] huge_mesh = Inr huge_mesh
   \<and> start \<lparr> start = - 2147483648, length_r = - 1 \<rparr> < 0
   \<and> start \<lparr> start = - 2147483648, length_r = - 1 \<rparr>
        + length_r \<lparr> start = - 2147483648, length_r = - 1 \<rparr> \<le> int (m_nVertices quad_mesh)
   \<and> updateVertices 4 \<lparr> start = - 2147483648, length_r = - 1 \<rparr> [1, 1, 1, 1] quad_mesh
       = Inr quad_mesh"
  by (simp add: updateVertices_def huge_mesh_def quad_mesh_def new_mesh_def int32_def)

text \<open>
  Claim C10, amended. On a compiled mesh of fewer than \<open>2 ^ 31\<close> vertices,
  \<^verbatim>\<open>updateVertices\<close> with \<open>start < 0\<close>, \<open>start + length \<le> vertexCount\<close> and a sum
  \<open>start + length\<close> that an \<^verbatim>\<open>int\<close> holds (\<open>- 2 ^ 31 \<le> start + length\<close>) is not rejected:
  the loop is entered with the bounds computed from the negative start, wrapped to
  \<^verbatim>\<open>size_t\<close>. It writes in front of the buffer when \<open>0 < length\<close> and
  \<open>start + length < 0\<close>, and makes no write otherwise; then \<^verbatim>\<open>setDirty\<close> is called with the
  negative byte offset \<open>start * sizeof(T)\<close>, so on a clean mesh the call is not a no-op.
  (The range holds \<^verbatim>\<open>int\<close> values, \<^verbatim>\<open>sizeof(T)\<close> is below \<open>2 ^ 31\<close> and the buffer is smaller
  than \<open>2 ^ 63\<close> bytes.) \<^verbatim>\<open>updateAttribute\<close> returns the mesh as it was for every range with
  \<open>start < 0\<close> or \<open>length < 1\<close>.
\<close>

theorem lower_bound_not_checked:
  "(m_glVertexData m = Some buf \<and> start r < 0 \<and> start r + length_r r \<le> int (m_nVertices m)
      \<and> int (m_nVertices m) < 2 ^ 31 \<and> - (2 ^ 31) \<le> start r + length_r r
      \<and> - (2 ^ 31) \<le> start r \<and> - (2 ^ 31) \<le> length_r r \<and> length_r r < 2 ^ 31
      \<and> 0 < tSize \<and> int tSize < 2 ^ 31 \<and> int (length buf) \<le> 2 ^ 63
    \<longrightarrow> updateVertices tSize r v m =
          (if 0 < length_r r \<and> start r + length_r r < 0 then Inl OutOfBounds
           else Inr (setDirty (start r * int tSize) (GLsizei (length_r r * int tSize)) m))
        \<and> (\<not> m_dirty m \<longrightarrow> updateVertices tSize r v m \<noteq> Inr m))
   \<and> (m_glVertexData m = Some buf \<and> length a \<le> tSize \<and> (start r < 0 \<or> length_r r < 1)
    \<longrightarrow> updateAttribute tSize r a k m = Inr m)"
proof (intro conjI impI)
  assume h: "m_glVertexData m = Some buf \<and> start r < 0
      \<and> start r + length_r r \<le> int (m_nVertices m)
      \<and> int (m_nVertices m) < 2 ^ 31 \<and> - (2 ^ 31) \<le> start r + length_r r
      \<and> - (2 ^ 31) \<le> start r \<and> - (2 ^ 31) \<le> length_r r \<and> length_r r < 2 ^ 31
      \<and> 0 < tSize \<and> int tSize < 2 ^ 31 \<and> int (length buf) \<le> 2 ^ 63"
  then show eq: "updateVertices tSize r v m =
          (if 0 < length_r r \<and> start r + length_r r < 0 then Inl OutOfBounds
           else Inr (setDirty (start r * int tSize) (GLsizei (length_r r * int tSize)) m))"
    by (intro updateVertices_negative_start) auto
  assume "\<not> m_dirty m"
  then show "updateVertices tSize r v m \<noteq> Inr m"
    using setDirty_not_same [of m] by (simp add: eq)
next
  assume "m_glVertexData m = Some buf \<and> length a \<le> tSize \<and> (start r < 0 \<or> length_r r < 1)"
  then show "updateAttribute tSize r a k m = Inr m"
    using updateAttribute_rejects [of m buf a tSize r k] by blast
qed

text \<open>
  Claim C10, amended, at the ranges \<open>(- 1, 2)\<close>, \<open>(- 3, 2)\<close> and \<open>(0, 0)\<close> on a mesh of two
  vertices.
\<close>

theorem lower_bound_not_checked_witness:
  "m_glVertexData quad_mesh = Some [0, 0, 0, 0, 0, 0, 0, 0]
   \<and> start \<lparr> start = - 1, length_r = 2 \<rparr> < 0
   \<and> start \<lparr> start = - 1, length_r = 2 \<rparr> + length_r \<lparr> start = - 1, length_r = 2 \<rparr>
        \<le> int (m_nVertices quad_mesh)
   \<and> int (m_nVertices quad_mesh) < 2 ^ 31
   \<and> - (2 ^ 31) \<le> start \<lparr> start = - 1, length_r = 2 \<rparr> + length_r \<lparr> start = - 1, length_r = 2 \<rparr>
   \<and> \<not> m_dirty quad_mesh
   \<and> updateVertices 4 \<lparr> start = - 1, length_r = 2 \<rparr> [1, 1, 1, 1] quad_mesh
       = Inr (quad_mesh\<lparr> m_dirty := True, m_dirtySize := 8, m_dirtyOffset := - 4 \<rparr>)
   \<and> updateVertices 4 \<lparr> start = - 1, length_r = 2 \<rparr> [1, 1, 1, 1] quad_mesh \<noteq> Inr quad_mesh
   \<and> updateVertices 4 \<lparr> start = - 3, length_r = 2 \<rparr> [1, 1, 1, 1] quad_mesh = Inl OutOfBounds
   \<and> updateAttribute 4 \<lparr> start = - 1, length_r = 2 \<rparr> [1, 2] 0 quad_mesh = Inr quad_mesh
   \<and> updateAttribute 4 \<lparr> start = 0, length_r = 0 \<rparr> [1, 2] 0 quad_mesh = Inr quad_mesh"
proof -
  have a0: "updateVertices 4 \<lparr> start = - 1, length_r = 2 \<rparr> [1, 1, 1, 1] quad_mesh =
          (if 0 < length_r \<lparr> start = - 1, length_r = 2 \<rparr>
               \<and> start \<lparr> start = - 1, length_r = 2 \<rparr> + length_r \<lparr> start = - 1, length_r = 2 \<rparr> < 0
           then Inl OutOfBounds
           else Inr (setDirty (start \<lparr> start = - 1, length_r = 2 \<rparr> * int 4)
                       (GLsizei (length_r \<lparr> start = - 1, length_r = 2 \<rparr> * int 4)) quad_mesh))
        \<and> (\<not> m_dirty quad_mesh \<longrightarrow>
             updateVertices 4 \<lparr> start = - 1, length_r = 2 \<rparr> [1, 1, 1, 1] quad_mesh \<noteq> Inr quad_mesh)"
    by (rule lower_bound_not_checked [where buf = "[0, 0, 0, 0, 0, 0, 0, 0]", THEN conjunct1, THEN mp])
       (simp add: quad_mesh_simps)
  have a: "updateVertices 4 \<lparr> start = - 1, length_r = 2 \<rparr> [1, 1, 1, 1] quad_mesh
       = Inr (quad_mesh\<lparr> m_dirty := True, m_dirtySize := 8, m_dirtyOffset := - 4 \<rparr>)"
    using a0 [THEN conjunct1] by (simp add: quad_mesh_simps setDirty_clean GLsizei_id)
  have a': "updateVertices 4 \<lparr> start = - 1, length_r = 2 \<rparr> [1, 1, 1, 1] quad_mesh \<noteq> Inr quad_mesh"
    using a0 [THEN conjunct2] quad_mesh_simps(3) by blast
  have b: "updateVertices 4 \<lparr> start = - 3, length_r = 2 \<rparr> [1, 1, 1, 1] quad_mesh = Inl OutOfBounds"
    using lower_bound_not_checked [THEN conjunct1, of quad_mesh "[0, 0, 0, 0, 0, 0, 0, 0]"
        "\<lparr> start = - 3, length_r = 2 \<rparr>" 4 "[1, 1, 1, 1]"]
    by (simp add: quad_mesh_simps)
  have c: "updateAttribute 4 \<lparr> start = - 1, length_r = 2 \<rparr> [1, 2] 0 quad_mesh = Inr quad_mesh"
    "updateAttribute 4 \<lparr> start = 0, length_r = 0 \<rparr> [1, 2] 0 quad_mesh = Inr quad_mesh"
    using lower_bound_not_checked [THEN conjunct2, of quad_mesh "[0, 0, 0, 0, 0, 0, 0, 0]"
        "[1, 2]" 4 "\<lparr> start = - 1, length_r = 2 \<rparr>" 0]
      lower_bound_not_checked [THEN conjunct2, of quad_mesh "[0, 0, 0, 0, 0, 0, 0, 0]"
        "[1, 2]" 4 "\<lparr> start = 0, length_r = 0 \<rparr>" 0]
    by (simp_all add: quad_mesh_simps)
  show ?thesis using a a' b c quad_mesh_simps by simp
qed


end
